(* ===== verification/Csm_Prelude.thy ===== *)
theory Csm_Prelude
  imports Main "HOL-Library.Word" "HOL-Library.Multiset" "HOL-Library.AList" "HOL-Library.Sublist"
    "HOL-Library.Char_ord" "HOL-Library.List_Lexorder" "HOL-Library.Product_Lexorder"
begin

text \<open>
  Shared vocabulary of the development: machine integers, hash maps as association lists,
  the JSON values the tools return, Rust's string searches, and the generic lemmas the
  component theories use.

  A Rust \<open>str\<close> is its UTF-8 byte sequence, so a \<open>string\<close> (a list of 8-bit characters)
  has the length Rust's \<open>len\<close> counts and is ordered bytewise as Rust orders it.
  A \<open>HashMap\<close> is an association list with distinct keys: the order of the list is
  one of the arbitrary iteration orders, and no result may depend on it.
\<close>

named_theorems wf_intros \<open>preservation of the well-formedness invariants\<close>
named_theorems frame_simps \<open>what an operation leaves unchanged\<close>

type_synonym u64 = "64 word"
type_synonym u32 = "32 word"
type_synonym i32 = int

subsection \<open>Hash maps\<close>

type_synonym ('k, 'v) hash_map = "('k \<times> 'v) list"

abbreviation hm_get :: "('k, 'v) hash_map \<Rightarrow> 'k \<Rightarrow> 'v option" where
  "hm_get m k \<equiv> map_of m k"

abbreviation hm_insert :: "'k \<Rightarrow> 'v \<Rightarrow> ('k, 'v) hash_map \<Rightarrow> ('k, 'v) hash_map" where
  "hm_insert k v m \<equiv> AList.update k v m"

abbreviation hm_remove :: "'k \<Rightarrow> ('k, 'v) hash_map \<Rightarrow> ('k, 'v) hash_map" where
  "hm_remove k m \<equiv> AList.delete k m"

definition hm_wf :: "('k, 'v) hash_map \<Rightarrow> bool" where
  "hm_wf m \<longleftrightarrow> distinct (map fst m)"

lemma hm_get_insert [simp]:
  "hm_get (hm_insert k v m) k' = (if k' = k then Some v else hm_get m k')"
  by (simp add: update_conv')

lemma hm_get_remove [simp]:
  "hm_get (hm_remove k m) k' = (if k' = k then None else hm_get m k')"
  by (simp add: delete_conv')

lemma hm_wf_Nil [simp, intro]: "hm_wf []"
  by (simp add: hm_wf_def)

lemma hm_wf_insert [wf_intros]: "hm_wf m \<Longrightarrow> hm_wf (hm_insert k v m)"
  by (simp add: hm_wf_def distinct_update)

lemma hm_wf_remove [wf_intros]: "hm_wf m \<Longrightarrow> hm_wf (hm_remove k m)"
  by (simp add: hm_wf_def distinct_delete)

lemma hm_get_in_set: "hm_wf m \<Longrightarrow> (k, v) \<in> set m \<longleftrightarrow> hm_get m k = Some v"
  by (auto simp: hm_wf_def dest: map_of_SomeD)

lemma hm_keys_iff: "k \<in> set (map fst m) \<longleftrightarrow> hm_get m k \<noteq> None"
  by (simp add: map_of_eq_None_iff)

lemma hm_get_mset_eq:
  "hm_wf m \<Longrightarrow> mset m = mset m' \<Longrightarrow> hm_get m' = hm_get m"
  by (metis hm_wf_def map_of_inject_set mset_eq_imp_distinct_iff mset_map set_mset_mset)

subsection \<open>Results\<close>

text \<open>A Rust \<open>Result\<close> is a sum with the error on the left; \<open>res_bind\<close> is the
  \<open>?\<close> operator threaded through a state.\<close>

definition res_bind :: "('e + 'a) \<times> 's \<Rightarrow> ('a \<Rightarrow> 's \<Rightarrow> ('e + 'b) \<times> 's) \<Rightarrow> ('e + 'b) \<times> 's" where
  "res_bind r k = (case r of (Inl e, s) \<Rightarrow> (Inl e, s) | (Inr a, s) \<Rightarrow> k a s)"

lemma res_bind_simps [simp]:
  "res_bind (Inl e, s) k = (Inl e, s)"
  "res_bind (Inr a, s) k = k a s"
  by (simp_all add: res_bind_def)

lemma res_bind_Inr_iff:
  "res_bind r k = (Inr b, s') \<longleftrightarrow> (\<exists>a s. r = (Inr a, s) \<and> k a s = (Inr b, s'))"
  by (cases r; cases "fst r") (auto simp: res_bind_def)

subsection \<open>JSON values\<close>

text \<open>The values the tools build with \<open>json!\<close>. An object is the list of its members as the
  source writes them; only members are ever read, never their order.\<close>

datatype json =
    JNull
  | JBool bool
  | JNum int
  | JStr string
  | JArr "json list"
  | JObj "(string \<times> json) list"

fun jget :: "string \<Rightarrow> json \<Rightarrow> json option" where
  "jget k (JObj kvs) = map_of kvs k"
| "jget k _ = None"

fun jas_str :: "json \<Rightarrow> string option" where
  "jas_str (JStr s) = Some s"
| "jas_str _ = None"

fun jset :: "string \<Rightarrow> json \<Rightarrow> json \<Rightarrow> json" where
  "jset k v (JObj kvs) = JObj (AList.update k v kvs)"
| "jset k v JNull = JObj [(k, v)]"
| "jset k v j = j"

definition jopt :: "('a \<Rightarrow> json) \<Rightarrow> 'a option \<Rightarrow> json" where
  "jopt f o' = (case o' of None \<Rightarrow> JNull | Some x \<Rightarrow> f x)"

lemma jget_jset_obj [simp]:
  "jget k (jset k' v (JObj kvs)) = (if k = k' then Some v else map_of kvs k)"
  by (simp add: update_conv')

subsection \<open>String searches\<close>

definition str_contains :: "string \<Rightarrow> string \<Rightarrow> bool" where
  "str_contains hay needle = sublist needle hay"

fun strip_prefix :: "string \<Rightarrow> string \<Rightarrow> string option" where
  "strip_prefix [] s = Some s"
| "strip_prefix (c # cs) [] = None"
| "strip_prefix (c # cs) (d # ds) = (if c = d then strip_prefix cs ds else None)"

lemma strip_prefix_append [simp]: "strip_prefix p (p @ s) = Some s"
  by (induction p) auto

lemma strip_prefix_Some_iff: "strip_prefix p s = Some r \<longleftrightarrow> s = p @ r"
  by (induction p s rule: strip_prefix.induct) auto

lemma strip_prefix_None_iff: "strip_prefix p s = None \<longleftrightarrow> \<not> prefix p s"
  by (metis not_Some_eq prefix_def strip_prefix_Some_iff)

text \<open>The text before and after the first occurrence of a separator.\<close>

fun split_first :: "string \<Rightarrow> string \<Rightarrow> (string \<times> string) option" where
  "split_first tag s =
     (case strip_prefix tag s of
        Some r \<Rightarrow> Some ([], r)
      | None \<Rightarrow>
          (case s of
             [] \<Rightarrow> None
           | c # cs \<Rightarrow> map_option (\<lambda>(a, b). (c # a, b)) (split_first tag cs)))"

declare split_first.simps [simp del]

lemma split_first_Some: "split_first tag s = Some (a, b) \<Longrightarrow> s = a @ tag @ b"
proof (induction tag s arbitrary: a b rule: split_first.induct)
  case (1 tag s)
  then show ?case
    by (auto simp: split_first.simps [of tag s] strip_prefix_Some_iff
        split: option.splits list.splits)
qed

lemma split_first_None_iff: "split_first tag s = None \<longleftrightarrow> \<not> sublist tag s"
proof (induction tag s rule: split_first.induct)
  case (1 tag s)
  show ?case
  proof (cases "strip_prefix tag s")
    case (Some r)
    then have "s = tag @ r" by (simp add: strip_prefix_Some_iff)
    then show ?thesis
      by (subst split_first.simps) simp
  next
    case None
    then have np: "\<not> prefix tag s" by (simp add: strip_prefix_None_iff)
    show ?thesis
    proof (cases s)
      case Nil
      with None np show ?thesis by (simp add: split_first.simps [of tag "[]"])
    next
      case (Cons c cs)
      with None np "1.IH" show ?thesis
        by (simp add: split_first.simps [of tag "c # cs"] sublist_Cons_right)
    qed
  qed
qed

lemma split_first_shorter:
  "tag \<noteq> [] \<Longrightarrow> split_first tag s = Some (a, b) \<Longrightarrow> length b < length s"
  by (drule split_first_Some) auto

text \<open>\<open>str::split\<close> with a string pattern; an empty pattern matches at every boundary.\<close>

function str_split :: "string \<Rightarrow> string \<Rightarrow> string list" where
  "str_split tag s =
     (if tag = [] then [] # map (\<lambda>c. [c]) s @ [[]]
      else (case split_first tag s of
              None \<Rightarrow> [s]
            | Some (a, b) \<Rightarrow> a # str_split tag b))"
  by pat_completeness auto
termination
  by (relation "measure (\<lambda>(tag, s). length s)") (auto simp: split_first_shorter)

declare str_split.simps [simp del]

text \<open>\<open>Iterator::nth\<close>: \<open>None\<close> past the end.\<close>

definition iter_nth :: "nat \<Rightarrow> 'a list \<Rightarrow> 'a option" where
  "iter_nth n xs = (if n < length xs then Some (xs ! n) else None)"

lemma str_split_second:
  "tag \<noteq> [] \<Longrightarrow>
   iter_nth 1 (str_split tag s) =
     (case split_first tag s of
        None \<Rightarrow> None
      | Some (a, b) \<Rightarrow> Some (hd (str_split tag b)))"
  by (subst str_split.simps)
    (auto simp: iter_nth_def hd_conv_nth str_split.simps split: option.splits)

subsection \<open>Counters\<close>

lemma word_less_succ:
  fixes t n :: "'a::len word"
  assumes "t < n" and "n \<noteq> - 1"
  shows "t < n + 1"
proof -
  have "unat (n + 1) = Suc (unat n)"
    using assms(2) unatSuc [of n] by (simp add: add.commute add_eq_0_iff)
  with assms(1) show ?thesis by (simp add: word_less_nat_alt)
qed

lemma word_self_less_succ:
  fixes n :: "'a::len word"
  assumes "n \<noteq> - 1"
  shows "n < n + 1"
proof -
  have "unat (n + 1) = Suc (unat n)"
    using assms unatSuc [of n] by (simp add: add.commute add_eq_0_iff)
  then show ?thesis by (simp add: word_less_nat_alt)
qed

subsection \<open>Vectors and iterators\<close>

text \<open>\<open>VecDeque::remove\<close> and \<open>Iterator::max_by_key\<close>; the latter keeps the last of
  several maximal elements.\<close>

definition vec_remove :: "nat \<Rightarrow> 'a list \<Rightarrow> 'a list" where
  "vec_remove i xs = take i xs @ drop (Suc i) xs"

fun max_by_key :: "('a \<Rightarrow> 'b::linorder) \<Rightarrow> 'a list \<Rightarrow> 'a option" where
  "max_by_key key [] = None"
| "max_by_key key (x # xs) =
     Some (fold (\<lambda>y best. if key y < key best then best else y) xs x)"

definition usize_max :: nat where
  "usize_max = 2 ^ 64 - 1"

lemma length_vec_remove: "i < length xs \<Longrightarrow> length (vec_remove i xs) = length xs - 1"
  by (simp add: vec_remove_def)

lemma filter_vec_remove:
  "i < length xs \<Longrightarrow> \<not> P (xs ! i) \<Longrightarrow> filter P (vec_remove i xs) = filter P xs"
  unfolding vec_remove_def by (metis filter.simps(2) filter_append id_take_nth_drop)

lemma subseq_vec_remove: "subseq (vec_remove i xs) xs"
proof -
  have "subseq (take i xs @ drop (Suc i) xs) (take i xs @ drop i xs)"
    by (intro list_emb_append_mono) (auto simp: drop_Suc simp flip: tl_drop intro: suffix_imp_subseq)
  then show ?thesis by (simp add: vec_remove_def)
qed

lemma fold_max_in:
  "fold (\<lambda>y best. if (key y :: 'b::linorder) < key best then best else y) xs x \<in> insert x (set xs)"
  by (induction xs arbitrary: x) auto

lemma fold_max_ge:
  "y \<in> insert x (set xs) \<Longrightarrow>
   key y \<le> (key (fold (\<lambda>y best. if (key y :: 'b::linorder) < key best then best else y) xs x))"
proof (induction xs arbitrary: x y)
  case (Cons z zs)
  let ?b = "if key z < key x then x else z"
  from Cons.prems have "\<exists>w \<in> insert ?b (set zs). key y \<le> key w" by force
  then obtain w where "w \<in> insert ?b (set zs)" and "key y \<le> key w" by blast
  with Cons.IH [of w ?b] show ?case by (auto dest: order_trans)
qed simp

lemma max_by_key_SomeD:
  assumes "max_by_key key xs = Some m"
  shows "m \<in> set xs" and "\<And>y. y \<in> set xs \<Longrightarrow> key y \<le> key m"
  using assms fold_max_in [where key = key] fold_max_ge [where key = key]
  by (cases xs; force)+

lemma max_by_key_None_iff [simp]: "max_by_key key xs = None \<longleftrightarrow> xs = []"
  by (cases xs) auto

end
