(* ===== verification/Wire.thy ===== *)
theory Wire
  imports Csm_Prelude
begin

text \<open>
  The messages of a Session stream, as the \<open>.proto\<close> files under
  \<open>protos/crosspoint/sim/control/v1alpha1\<close> declare them: the simulator sends
  \<open>sim_to_server\<close> envelopes, the proxy sends \<open>server_to_sim\<close> envelopes.
  A \<open>oneof\<close> is a datatype, an unset \<open>oneof\<close> is \<open>None\<close>, and a \<open>float\<close> is its 32-bit
  pattern (no code of the proxy looks into it).
\<close>

subsection \<open>Simulator to server\<close>

record register =
  reg_instance_id :: string
  reg_board_id :: string
  reg_controller :: string
  reg_width :: u32
  reg_height :: u32
  reg_cap_touch :: bool
  reg_cap_home :: bool
  reg_cap_frontlight :: bool
  reg_pid :: u32
  reg_version :: string

record heartbeat =
  hb_framebuffer_generation :: u64
  hb_inject_enabled :: bool
  hb_headless :: bool
  hb_activity :: string
  hb_reader_spine :: i32
  hb_reader_page :: i32
  hb_orientation :: u32

record snapshot_frame =
  sf_pixels :: string
  sf_mime_type :: string
  sf_hash :: string
  sf_generation :: u64
  sf_width :: u32
  sf_height :: u32

record snapshot_error =
  se_message :: string

datatype log_type = LogTypeUnspecified | FirmwareSerial | HostSim | ControlPlane

datatype log_severity = SeverityUnspecified | Debug | Info | Warn | Error

record log_line =
  log_seq :: u64
  log_ty :: log_type
  log_severity :: log_severity
  log_component :: string
  log_text :: string

record input_ack =
  ack_accepted :: bool
  ack_reason :: string

datatype input_source = SourceUnspecified | Human | Remote | Script

datatype input_event =
    KeyEdge string bool
  | TouchEdge u32 u32 u32
  | HomeEdge bool
  | HostEdge u32

record input_observed =
  obs_source :: input_source
  obs_event :: "input_event option"

record goodbye =
  bye_reason :: string

record ui_result =
  ui_painted :: bool
  ui_generation :: u64
  ui_activity :: string

datatype sim_payload =
    Register register
  | Heartbeat heartbeat
  | Snapshot snapshot_frame
  | SnapshotError snapshot_error
  | Log log_line
  | InputAck input_ack
  | InputObserved input_observed
  | Goodbye goodbye
  | UiResult ui_result

record sim_to_server =
  seq :: u64
  corr :: u64
  payload :: "sim_payload option"

subsection \<open>Server to simulator\<close>

datatype coordinate_space = SpaceUnspecified | Panel | Logical

record inject_touch =
  touch_kind :: u32
  touch_x :: u32
  touch_y :: u32
  touch_space :: coordinate_space

record inject_key =
  key_name :: string
  key_hold_ms :: u32

record inject_swipe =
  swipe_start_x :: u32
  swipe_start_y :: u32
  swipe_end_x :: u32
  swipe_end_y :: u32
  swipe_duration_ms :: u32
  swipe_space :: coordinate_space

record snapshot_request =
  sr_region :: bool
  sr_x :: u32
  sr_y :: u32
  sr_width :: u32
  sr_height :: u32
  sr_format :: u32

record set_session_view =
  view_read_mask :: "string list"
  view_exclude_log_components :: "string list"

datatype srv_payload =
    InjectTouch inject_touch
  | InjectKey inject_key
  | InjectHome u32
  | InjectSwipe inject_swipe
  | SnapshotRequest snapshot_request
  | SetInjectEnabled bool
  | Shutdown
  | SetSessionView set_session_view

record server_to_sim =
  req_corr :: u64
  req_ack_requested :: bool
  req_payload :: "srv_payload option"

subsection \<open>Sample messages\<close>

text \<open>Concrete messages at which the witnesses of the component theories evaluate.\<close>

definition sample_register :: "string \<Rightarrow> register" where
  "sample_register i =
     \<lparr>reg_instance_id = i, reg_board_id = ''x4'', reg_controller = ''ssd1677'',
      reg_width = 480, reg_height = 800, reg_cap_touch = True, reg_cap_home = False,
      reg_cap_frontlight = False, reg_pid = 7, reg_version = ''1''\<rparr>"

definition sample_heartbeat :: "u64 \<Rightarrow> heartbeat" where
  "sample_heartbeat g =
     \<lparr>hb_framebuffer_generation = g, hb_inject_enabled = True, hb_headless = True,
      hb_activity = ''Home'', hb_reader_spine = 0, hb_reader_page = 2, hb_orientation = 0\<rparr>"

definition sample_log :: "string \<Rightarrow> string \<Rightarrow> log_line" where
  "sample_log cmp txt =
     \<lparr>log_seq = 0, log_ty = FirmwareSerial, log_severity = Info,
      log_component = cmp, log_text = txt\<rparr>"

definition envelope :: "u64 \<Rightarrow> u64 \<Rightarrow> sim_payload \<Rightarrow> sim_to_server" where
  "envelope n c p = \<lparr>seq = n, corr = c, payload = Some p\<rparr>"

lemma envelope_sel [simp]:
  "seq (envelope n c p) = n" "corr (envelope n c p) = c" "payload (envelope n c p) = Some p"
  by (simp_all add: envelope_def)

lemma sample_sel [simp]:
  "reg_instance_id (sample_register i) = i"
  "log_component (sample_log cmp txt) = cmp" "log_text (sample_log cmp txt) = txt"
  "hb_framebuffer_generation (sample_heartbeat g) = g"
  by (simp_all add: sample_register_def sample_log_def sample_heartbeat_def)

end
