(* ===== verification/Inbound_Queue.thy ===== *)
theory Inbound_Queue
  imports Wire
begin

text \<open>
  The bounded inbound queue of one simulator instance and the classification of inbound
  messages (\<open>InboundQueue\<close> and the associated functions of \<open>InstanceMap\<close> in
  \<open>crates/csm-proxy/src/instances.rs\<close>): which payload a message carries, which
  messages the queue protects, which one it evicts when it is full.
  The interface of such a queue is the locale \<open>bounded_buffer\<close> and its extension
  \<open>protecting_buffer\<close>, both interpreted on the model's own operations.
\<close>

subsection \<open>The interface of a bounded queue\<close>

locale bounded_buffer =
  fixes items :: "'q \<Rightarrow> 'a list"
    and cap :: "'q \<Rightarrow> nat"
    and inv :: "'q \<Rightarrow> bool"
    and put :: "'a \<Rightarrow> 'q \<Rightarrow> 'q"
    and take1 :: "'q \<Rightarrow> 'a option \<times> 'q"
  assumes bound: "inv q \<Longrightarrow> length (items q) \<le> cap q"
    and inv_put: "inv q \<Longrightarrow> inv (put x q)"
    and inv_take: "inv q \<Longrightarrow> inv (snd (take1 q))"
    and cap_put: "cap (put x q) = cap q"
    and put_room: "inv q \<Longrightarrow> length (items q) < cap q \<Longrightarrow> items (put x q) = items q @ [x]"
    and put_subseq: "inv q \<Longrightarrow> subseq (items (put x q)) (items q @ [x])"
    and take_Nil: "items q = [] \<Longrightarrow> take1 q = (None, q)"
    and take_Cons: "items q = x # xs \<Longrightarrow> fst (take1 q) = Some x \<and> items (snd (take1 q)) = xs"
begin

lemma inv_puts: "inv q \<Longrightarrow> inv (fold put xs q)"
  by (induction xs arbitrary: q) (auto intro: inv_put)

lemma cap_puts: "cap (fold put xs q) = cap q"
  by (induction xs arbitrary: q) (auto simp: cap_put)

lemma puts_bound: "inv q \<Longrightarrow> length (items (fold put xs q)) \<le> cap q"
  using bound [OF inv_puts] by (simp add: cap_puts)

lemma puts_in_order: "inv q \<Longrightarrow> subseq (items (fold put xs q)) (items q @ xs)"
proof (induction xs arbitrary: q)
  case (Cons x xs)
  have "subseq (items (fold put xs (put x q))) (items (put x q) @ xs)"
    using Cons by (simp add: inv_put)
  moreover have "subseq (items (put x q) @ xs) ((items q @ [x]) @ xs)"
    using put_subseq [OF Cons.prems] by (intro list_emb_append_mono) auto
  ultimately show ?case by (auto intro: subseq_order.order_trans)
qed simp

lemma puts_lossless:
  "inv q \<Longrightarrow> length (items q) + length xs \<le> cap q \<Longrightarrow> items (fold put xs q) = items q @ xs"
  by (induction xs arbitrary: q) (auto simp: put_room inv_put cap_put)

lemma take_length:
  "fst (take1 q) = Some x \<Longrightarrow> length (items (snd (take1 q))) < length (items q)"
  using take_Nil [of q] take_Cons [of q] by (cases "items q") auto

end

text \<open>A queue that never gives up a queued item of some protected class.\<close>

locale protecting_buffer = bounded_buffer +
  fixes keep :: "'b \<Rightarrow> bool"
  assumes keep_put: "inv q \<Longrightarrow> prefix (filter keep (items q)) (filter keep (items (put x q)))"
begin

lemma keep_puts: "inv q \<Longrightarrow> prefix (filter keep (items q)) (filter keep (items (fold put xs q)))"
  by (induction xs arbitrary: q) (auto intro: prefix_order.order_trans keep_put inv_put)

end

subsection \<open>Classification of inbound messages\<close>

definition inbound_payload_name :: "sim_to_server \<Rightarrow> string option" where
  "inbound_payload_name msg =
     (case payload msg of
        Some (Register _) \<Rightarrow> Some ''register''
      | Some (Heartbeat _) \<Rightarrow> Some ''heartbeat''
      | Some (Snapshot _) \<Rightarrow> Some ''snapshot''
      | Some (SnapshotError _) \<Rightarrow> Some ''snapshot_error''
      | Some (Log _) \<Rightarrow> Some ''log''
      | Some (InputAck _) \<Rightarrow> Some ''input_ack''
      | Some (InputObserved _) \<Rightarrow> Some ''input_observed''
      | Some (Goodbye _) \<Rightarrow> Some ''goodbye''
      | Some (UiResult _) \<Rightarrow> Some ''ui_result''
      | None \<Rightarrow> None)"

definition inbound_visible :: "string list \<Rightarrow> sim_to_server \<Rightarrow> bool" where
  "inbound_visible msk msg \<longleftrightarrow>
     msk = [] \<or>
     (case inbound_payload_name msg of
        None \<Rightarrow> False
      | Some name \<Rightarrow> list_ex (\<lambda>path. path = name) msk)"

definition is_heartbeat :: "sim_to_server \<Rightarrow> bool" where
  "is_heartbeat msg = (case payload msg of Some (Heartbeat _) \<Rightarrow> True | _ \<Rightarrow> False)"

definition is_never_drop :: "sim_to_server \<Rightarrow> bool" where
  "is_never_drop msg =
     (case payload msg of
        Some (InputAck _) \<Rightarrow> True
      | Some (UiResult _) \<Rightarrow> True
      | Some (Snapshot _) \<Rightarrow> True
      | Some (SnapshotError _) \<Rightarrow> True
      | Some (Log log) \<Rightarrow> log_component log = ''ACT'' \<or> log_component log = ''ERS''
      | _ \<Rightarrow> False)"

definition eviction_rank :: "sim_to_server \<Rightarrow> nat" where
  "eviction_rank msg =
     (case payload msg of
        Some (Heartbeat _) \<Rightarrow> 4
      | Some (Log log) \<Rightarrow>
          if log_component log = ''MEM'' \<or> log_component log = ''SCT'' then 3
          else if log_component log = ''ACT'' \<or> log_component log = ''ERS'' then 0
          else 2
      | _ \<Rightarrow> if \<not> is_never_drop msg then 1 else 0)"

definition eviction_index :: "sim_to_server list \<Rightarrow> nat option" where
  "eviction_index items =
     map_option fst
       (max_by_key (\<lambda>(index, msg). (eviction_rank msg, usize_max - index))
         (filter (\<lambda>(_, msg). eviction_rank msg > 0) (List.enumerate 0 items)))"

lemma eviction_rank_0_iff: "eviction_rank msg = 0 \<longleftrightarrow> is_never_drop msg"
  by (auto simp: eviction_rank_def is_never_drop_def split: option.splits sim_payload.splits)

lemma heartbeat_rank: "is_heartbeat msg \<longleftrightarrow> eviction_rank msg = 4"
  by (auto simp: eviction_rank_def is_heartbeat_def split: option.splits sim_payload.splits)

lemma heartbeat_droppable: "is_heartbeat msg \<Longrightarrow> \<not> is_never_drop msg"
  by (auto simp: is_heartbeat_def is_never_drop_def split: option.splits sim_payload.splits)

lemma inbound_visible_iff:
  "inbound_visible msk msg \<longleftrightarrow>
     msk = [] \<or> (\<exists>name. inbound_payload_name msg = Some name \<and> name \<in> set msk)"
  by (auto simp: inbound_visible_def list_ex_iff split: option.splits)

subsection \<open>The queue\<close>

record inbound_queue =
  iq_items :: "sim_to_server list"
  iq_cap :: nat

definition iq_new :: "nat \<Rightarrow> inbound_queue" where
  "iq_new c = \<lparr>iq_items = [], iq_cap = c\<rparr>"

definition iq_push :: "sim_to_server \<Rightarrow> inbound_queue \<Rightarrow> inbound_queue" where
  "iq_push msg q =
     (if length (iq_items q) = iq_cap q then
        (if is_heartbeat msg then q
         else (case eviction_index (iq_items q) of
                 Some index \<Rightarrow> q\<lparr>iq_items := vec_remove index (iq_items q) @ [msg]\<rparr>
               | None \<Rightarrow> if \<not> is_never_drop msg then q else q))
      else q\<lparr>iq_items := iq_items q @ [msg]\<rparr>)"

definition iq_try_recv :: "inbound_queue \<Rightarrow> sim_to_server option \<times> inbound_queue" where
  "iq_try_recv q =
     (case iq_items q of
        [] \<Rightarrow> (None, q)
      | msg # rest \<Rightarrow> (Some msg, q\<lparr>iq_items := rest\<rparr>))"

definition iq_wf :: "inbound_queue \<Rightarrow> bool" where
  "iq_wf q \<longleftrightarrow> length (iq_items q) \<le> iq_cap q \<and> iq_cap q \<le> usize_max"

subsection \<open>Which message is evicted\<close>

lemma in_enumerate_filter:
  "(i, m) \<in> set (filter (\<lambda>(_, msg). P msg) (List.enumerate 0 xs)) \<longleftrightarrow>
   i < length xs \<and> m = xs ! i \<and> P m"
  by (auto simp: in_set_enumerate_eq)

lemma eviction_index_None_iff:
  "eviction_index xs = None \<longleftrightarrow> (\<forall>m \<in> set xs. is_never_drop m)"
proof -
  let ?c = "filter (\<lambda>(_, msg). eviction_rank msg > 0) (List.enumerate 0 xs)"
  have "eviction_index xs = None \<longleftrightarrow> ?c = []"
    by (simp only: eviction_index_def option.map_disc_iff max_by_key_None_iff)
  also have "\<dots> \<longleftrightarrow> (\<forall>p. p \<notin> set ?c)"
    by (simp only: all_not_in_conv set_empty)
  also have "\<dots> \<longleftrightarrow> (\<forall>i m. (i, m) \<notin> set ?c)"
    by (simp only: split_paired_All)
  also have "\<dots> \<longleftrightarrow> (\<forall>i < length xs. eviction_rank (xs ! i) = 0)"
    unfolding in_enumerate_filter by auto
  finally show ?thesis by (simp add: eviction_rank_0_iff all_set_conv_all_nth)
qed

definition oldest_of_max_rank :: "sim_to_server list \<Rightarrow> nat \<Rightarrow> bool" where
  "oldest_of_max_rank xs i \<longleftrightarrow>
     i < length xs \<and> \<not> is_never_drop (xs ! i) \<and>
     (\<forall>j < length xs. eviction_rank (xs ! j) \<le> eviction_rank (xs ! i)) \<and>
     (\<forall>j < i. eviction_rank (xs ! j) < eviction_rank (xs ! i))"

lemma oldest_of_max_rank_unique:
  "oldest_of_max_rank xs i \<Longrightarrow> oldest_of_max_rank xs j \<Longrightarrow> i = j"
  unfolding oldest_of_max_rank_def by (metis linorder_neqE_nat not_le)

lemma eviction_index_SomeD:
  assumes "eviction_index xs = Some i" and "length xs \<le> usize_max"
  shows "oldest_of_max_rank xs i"
proof -
  let ?c = "filter (\<lambda>(_, msg). eviction_rank msg > 0) (List.enumerate 0 xs)"
  let ?key = "\<lambda>(index, msg). (eviction_rank msg, usize_max - index)"
  from assms(1) obtain m where max: "max_by_key ?key ?c = Some (i, m)"
    by (auto simp: eviction_index_def)
  from max_by_key_SomeD(1) [OF max]
  have i: "i < length xs" "m = xs ! i" "eviction_rank (xs ! i) > 0"
    by (auto simp: in_set_enumerate_eq)
  have le: "?key (j, xs ! j) \<le> ?key (i, xs ! i)"
    if "j < length xs" "eviction_rank (xs ! j) > 0" for j
    using max_by_key_SomeD(2) [OF max, of "(j, xs ! j)"] that i(2)
    by (simp add: in_set_enumerate_eq)
  have rank: "eviction_rank (xs ! j) \<le> eviction_rank (xs ! i)" if "j < length xs" for j
    using le [OF that] by (cases "eviction_rank (xs ! j) = 0") auto
  have first: "eviction_rank (xs ! j) < eviction_rank (xs ! i)" if "j < i" for j
    using le [of j] that i assms(2) by (cases "eviction_rank (xs ! j) = 0") auto
  from i rank first show ?thesis
    by (auto simp: oldest_of_max_rank_def simp flip: eviction_rank_0_iff)
qed

subsection \<open>The queue implements the interface\<close>

lemma iq_push_cap [simp]: "iq_cap (iq_push msg q) = iq_cap q"
  by (simp add: iq_push_def split: option.split)

lemma iq_push_room:
  "length (iq_items q) \<noteq> iq_cap q \<Longrightarrow> iq_items (iq_push msg q) = iq_items q @ [msg]"
  by (simp add: iq_push_def)

lemma iq_push_full:
  assumes "length (iq_items q) = iq_cap q"
  shows "iq_items (iq_push msg q) =
    (if is_heartbeat msg then iq_items q
     else case eviction_index (iq_items q) of
            None \<Rightarrow> iq_items q
          | Some i \<Rightarrow> vec_remove i (iq_items q) @ [msg])"
  using assms by (simp add: iq_push_def split: option.split)

lemma iq_push_cases:
  assumes "iq_wf q"
  obtains (room) "length (iq_items q) < iq_cap q" "iq_items (iq_push msg q) = iq_items q @ [msg]"
  | (refused) "length (iq_items q) = iq_cap q" "iq_items (iq_push msg q) = iq_items q"
      "is_heartbeat msg \<or> eviction_index (iq_items q) = None"
  | (evicted) i where "length (iq_items q) = iq_cap q" "oldest_of_max_rank (iq_items q) i"
      "\<not> is_heartbeat msg" "iq_items (iq_push msg q) = vec_remove i (iq_items q) @ [msg]"
proof (cases "length (iq_items q) = iq_cap q")
  case False
  with assms room show ?thesis by (simp add: iq_push_room iq_wf_def)
next
  case True
  with assms have "length (iq_items q) \<le> usize_max" by (simp add: iq_wf_def)
  note evict = eviction_index_SomeD [OF _ this]
  show ?thesis
    using iq_push_full [OF True, of msg] refused evicted [OF True] evict True
    by (cases "eviction_index (iq_items q)"; cases "is_heartbeat msg") auto
qed

lemma oldest_lt: "oldest_of_max_rank xs i \<Longrightarrow> i < length xs"
  by (simp add: oldest_of_max_rank_def)

lemma iq_wf_push [wf_intros]:
  assumes "iq_wf q" shows "iq_wf (iq_push msg q)"
  using assms
  by (cases rule: iq_push_cases [OF assms, of msg]) (auto simp: iq_wf_def length_vec_remove dest: oldest_lt)

lemma iq_wf_try_recv [wf_intros]: "iq_wf q \<Longrightarrow> iq_wf (snd (iq_try_recv q))"
  by (auto simp: iq_wf_def iq_try_recv_def split: list.split)

lemma iq_try_recv_cap [simp]: "iq_cap (snd (iq_try_recv q)) = iq_cap q"
  by (auto simp: iq_try_recv_def split: list.split)

lemma iq_try_recv_Nil: "iq_items q = [] \<Longrightarrow> iq_try_recv q = (None, q)"
  by (simp add: iq_try_recv_def)

lemma iq_try_recv_Cons:
  "iq_items q = m # ms \<Longrightarrow> iq_try_recv q = (Some m, q\<lparr>iq_items := ms\<rparr>)"
  by (simp add: iq_try_recv_def)

lemma iq_push_subseq: "iq_wf q \<Longrightarrow> subseq (iq_items (iq_push msg q)) (iq_items q @ [msg])"
  by (erule iq_push_cases [of q msg]) (auto intro!: list_emb_append_mono subseq_vec_remove)

lemma iq_push_keeps:
  assumes "iq_wf q"
  shows "prefix (filter is_never_drop (iq_items q)) (filter is_never_drop (iq_items (iq_push msg q)))"
  using assms
proof (cases rule: iq_push_cases [of q msg])
  case (evicted i)
  then show ?thesis by (auto simp: oldest_of_max_rank_def filter_vec_remove)
qed auto

interpretation iq: protecting_buffer iq_items iq_cap iq_wf iq_push iq_try_recv is_never_drop
  by unfold_locales
    (auto simp: iq_push_room iq_push_subseq iq_push_keeps iq_try_recv_Nil iq_try_recv_Cons
      iq_wf_push iq_wf_try_recv, simp add: iq_wf_def)

subsection \<open>Properties\<close>



text \<open>C5. A protected message (an acknowledgement, a UI result, a snapshot reply, an ACT or
  ERS log line) that is queued is never evicted: after any further pushes the protected messages
  of the queue still start with the ones that were there, in the same order.\<close>

theorem queue_protects_replies:
  assumes "iq_wf q"
  shows "prefix (filter is_never_drop (iq_items q))
    (filter is_never_drop (iq_items (fold iq_push msgs q)))"
  by (rule iq.keep_puts [OF assms])

theorem queue_protects_replies_witness:
  "prefix [envelope 1 0 (Log (sample_log ''ACT'' ''b''))]
     (filter is_never_drop (iq_items (fold iq_push
        [envelope 2 0 (Log (sample_log ''ERS'' ''c'')), envelope 3 0 (Log (sample_log ''X'' ''d''))]
        \<lparr>iq_items = [envelope 1 0 (Log (sample_log ''ACT'' ''b''))], iq_cap = 1\<rparr>)))"
proof -
  let ?q = "\<lparr>iq_items = [envelope 1 0 (Log (sample_log ''ACT'' ''b''))], iq_cap = 1\<rparr>"
  let ?ms = "[envelope 2 0 (Log (sample_log ''ERS'' ''c'')), envelope 3 0 (Log (sample_log ''X'' ''d''))]"
  have "iq_wf ?q" by (simp add: iq_wf_def usize_max_def)
  from queue_protects_replies [OF this, of ?ms] show ?thesis
    by (simp add: is_never_drop_def [of "envelope 1 0 (Log (sample_log ''ACT'' ''b''))"])
qed





end
