(* ===== verification/Instance_Map.thy ===== *)
theory Instance_Map
  imports Inbound_Queue
begin

text \<open>
  The shared map of connected simulators (\<open>InstanceMap\<close> in
  \<open>crates/csm-proxy/src/instances.rs\<close>): sessions keyed by instance id and owned by a
  token, the reply waiters keyed by correlation id, and every synchronous operation on them.
  Each method is one function from the state to a result and the new state.

  The tokio channels the map holds are not code of the repository. A \<open>mpsc\<close> sender is a
  handle into \<open>im_outq\<close>, whose contents have an abstract type \<open>'ch\<close>; what \<open>try_send\<close>
  does to such a channel is a parameter. A \<open>oneshot\<close> sender is a handle too, and
  \<open>im_tx_fate\<close> records what the code has done with it: kept it, sent a message, dropped it.
\<close>

definition QUEUE_CAPACITY :: nat where
  "QUEUE_CAPACITY = 128"

definition REPLY_TIMEOUT :: nat where
  "REPLY_TIMEOUT = 2000"

datatype wait_kind = WaitAny | WaitInputAck | WaitUiResult | WaitSnapshot

definition INSTANCE_ID_MAX_LEN :: nat where
  "INSTANCE_ID_MAX_LEN = 64"

definition is_valid_instance_id :: "string \<Rightarrow> bool" where
  "is_valid_instance_id iid \<longleftrightarrow> iid \<noteq> [] \<and> length iid \<le> INSTANCE_ID_MAX_LEN"

datatype try_send_error = SendUnknownInstance | SendQueueFull

datatype wait_error = WaitUnknownInstance | WaitQueueFull | WaitTimeout | WaitDisconnected

datatype resolve_error = EmptyId | UnknownInstance

record instance_snapshot =
  snap_token :: u64
  snap_register :: register
  snap_last_heartbeat :: "heartbeat option"

record sim_instance =
  inst_token :: u64
  inst_register :: register
  inst_last_heartbeat :: "heartbeat option"
  inst_inbound :: inbound_queue
  inst_outbound_tx :: nat
  inst_read_mask :: "string list"
  inst_exclude_log_components :: "string list"

datatype tx_fate = TxOpen | TxSent sim_to_server | TxDropped

record 'ch imap =
  im_inner :: "(string, sim_instance) hash_map"
  im_next_token :: u64
  im_next_corr :: u64
  im_default_instance :: "string option"
  im_waiters :: "(u64, wait_kind \<times> nat) hash_map"
  im_waiter_instance :: "(u64, string) hash_map"
  im_outq :: "nat \<Rightarrow> 'ch"
  im_tx_fate :: "nat \<Rightarrow> tx_fate"
  im_next_chan :: nat

type_synonym 'ch try_send_fn = "'ch \<Rightarrow> server_to_sim \<Rightarrow> 'ch option"

definition imap_new :: "(nat \<Rightarrow> 'ch) \<Rightarrow> 'ch imap" where
  "imap_new chans =
     \<lparr>im_inner = [], im_next_token = 1, im_next_corr = 1, im_default_instance = None,
      im_waiters = [], im_waiter_instance = [],
      im_outq = chans, im_tx_fate = (\<lambda>_. TxOpen), im_next_chan = 0\<rparr>"

subsection \<open>Sessions\<close>

text \<open>\<open>insert\<close> takes the next token (\<open>fetch_add\<close> wraps) and replaces whatever session
  held the id. Its \<open>debug_assert\<close> on the id is a condition the only caller has checked.\<close>

definition imap_insert :: "register \<Rightarrow> nat \<Rightarrow> nat \<Rightarrow> 'ch imap \<Rightarrow> u64 \<times> 'ch imap" where
  "imap_insert reg inbound_cap outbound_tx m =
     (let token = im_next_token m;
          inst = \<lparr>inst_token = token, inst_register = reg, inst_last_heartbeat = None,
                  inst_inbound = iq_new inbound_cap, inst_outbound_tx = outbound_tx,
                  inst_read_mask = [], inst_exclude_log_components = []\<rparr>
      in (token, m\<lparr>im_next_token := token + 1,
                   im_inner := hm_insert (reg_instance_id reg) inst (im_inner m)\<rparr>))"

definition owns :: "string \<Rightarrow> u64 \<Rightarrow> 'ch imap \<Rightarrow> bool" where
  "owns iid token m =
     (case hm_get (im_inner m) iid of None \<Rightarrow> False | Some inst \<Rightarrow> inst_token inst = token)"

definition set_heartbeat :: "string \<Rightarrow> u64 \<Rightarrow> heartbeat \<Rightarrow> 'ch imap \<Rightarrow> 'ch imap" where
  "set_heartbeat iid token hb m =
     (case hm_get (im_inner m) iid of
        Some inst \<Rightarrow>
          if inst_token inst = token
          then m\<lparr>im_inner := hm_insert iid (inst\<lparr>inst_last_heartbeat := Some hb\<rparr>) (im_inner m)\<rparr>
          else m
      | None \<Rightarrow> m)"

definition list_ids :: "'ch imap \<Rightarrow> string list" where
  "list_ids m = map fst (im_inner m)"

definition snapshot_of :: "sim_instance \<Rightarrow> instance_snapshot" where
  "snapshot_of inst =
     \<lparr>snap_token = inst_token inst, snap_register = inst_register inst,
      snap_last_heartbeat = inst_last_heartbeat inst\<rparr>"

definition snapshots :: "'ch imap \<Rightarrow> instance_snapshot list" where
  "snapshots m = map (\<lambda>(iid, inst). snapshot_of inst) (im_inner m)"

definition next_corr :: "'ch imap \<Rightarrow> u64 \<times> 'ch imap" where
  "next_corr m = (im_next_corr m, m\<lparr>im_next_corr := im_next_corr m + 1\<rparr>)"

definition set_default_instance :: "string option \<Rightarrow> 'ch imap \<Rightarrow> 'ch imap" where
  "set_default_instance iid m =
     m\<lparr>im_default_instance :=
         (case iid of Some s \<Rightarrow> if is_valid_instance_id s then Some s else None | None \<Rightarrow> None)\<rparr>"

definition default_instance :: "'ch imap \<Rightarrow> string option" where
  "default_instance m = im_default_instance m"

definition inst_get :: "string \<Rightarrow> 'ch imap \<Rightarrow> instance_snapshot option" where
  "inst_get iid m = map_option snapshot_of (hm_get (im_inner m) iid)"

definition resolve :: "string \<Rightarrow> 'ch imap \<Rightarrow> resolve_error + instance_snapshot" where
  "resolve iid m =
     (if \<not> is_valid_instance_id iid then Inl EmptyId
      else (case inst_get iid m of None \<Rightarrow> Inl UnknownInstance | Some s \<Rightarrow> Inr s))"

definition resolve_or_default ::
    "string option \<Rightarrow> 'ch imap \<Rightarrow> resolve_error + instance_snapshot" where
  "resolve_or_default iid m =
     (case iid of
        Some i \<Rightarrow> resolve i m
      | None \<Rightarrow> (case default_instance m of
                   Some dflt \<Rightarrow> resolve dflt m
                 | None \<Rightarrow> Inl EmptyId))"

definition try_send ::
    "'ch try_send_fn \<Rightarrow> string \<Rightarrow> server_to_sim \<Rightarrow> 'ch imap \<Rightarrow> (try_send_error + unit) \<times> 'ch imap"
  where
  "try_send ts iid msg m =
     (case hm_get (im_inner m) iid of
        None \<Rightarrow> (Inl SendUnknownInstance, m)
      | Some inst \<Rightarrow>
          (case ts (im_outq m (inst_outbound_tx inst)) msg of
             None \<Rightarrow> (Inl SendQueueFull, m)
           | Some ch \<Rightarrow> (Inr (), m\<lparr>im_outq := (im_outq m)(inst_outbound_tx inst := ch)\<rparr>)))"

definition set_read_mask :: "string \<Rightarrow> string list \<Rightarrow> 'ch imap \<Rightarrow> 'ch imap" where
  "set_read_mask iid paths m =
     (case hm_get (im_inner m) iid of
        Some inst \<Rightarrow> m\<lparr>im_inner := hm_insert iid (inst\<lparr>inst_read_mask := paths\<rparr>) (im_inner m)\<rparr>
      | None \<Rightarrow> m)"

definition read_mask :: "string \<Rightarrow> 'ch imap \<Rightarrow> string list option" where
  "read_mask iid m = map_option inst_read_mask (hm_get (im_inner m) iid)"

definition set_exclude_log_components :: "string \<Rightarrow> string list \<Rightarrow> 'ch imap \<Rightarrow> 'ch imap" where
  "set_exclude_log_components iid components m =
     (case hm_get (im_inner m) iid of
        Some inst \<Rightarrow>
          m\<lparr>im_inner := hm_insert iid (inst\<lparr>inst_exclude_log_components := components\<rparr>) (im_inner m)\<rparr>
      | None \<Rightarrow> m)"

definition exclude_log_components :: "string \<Rightarrow> 'ch imap \<Rightarrow> string list option" where
  "exclude_log_components iid m = map_option inst_exclude_log_components (hm_get (im_inner m) iid)"

definition try_recv_inbound :: "string \<Rightarrow> 'ch imap \<Rightarrow> sim_to_server option \<times> 'ch imap" where
  "try_recv_inbound iid m =
     (case hm_get (im_inner m) iid of
        None \<Rightarrow> (None, m)
      | Some inst \<Rightarrow>
          (let (msg, q) = iq_try_recv (inst_inbound inst)
           in (msg, m\<lparr>im_inner := hm_insert iid (inst\<lparr>inst_inbound := q\<rparr>) (im_inner m)\<rparr>)))"

subsection \<open>Reply waiters\<close>

definition waiter_matches :: "wait_kind \<Rightarrow> sim_to_server \<Rightarrow> bool" where
  "waiter_matches kind msg =
     (case kind of
        WaitAny \<Rightarrow> True
      | WaitInputAck \<Rightarrow> (case payload msg of Some (InputAck _) \<Rightarrow> True | _ \<Rightarrow> False)
      | WaitUiResult \<Rightarrow>
          (case payload msg of
             Some (UiResult _) \<Rightarrow> True
           | Some (InputAck ack) \<Rightarrow> \<not> ack_accepted ack
           | _ \<Rightarrow> False)
      | WaitSnapshot \<Rightarrow>
          (case payload msg of
             Some (Snapshot _) \<Rightarrow> True
           | Some (SnapshotError _) \<Rightarrow> True
           | _ \<Rightarrow> False))"

text \<open>Inserting under a correlation id that is already waited for drops the old sender.\<close>

definition drop_sender :: "(wait_kind \<times> nat) option \<Rightarrow> (nat \<Rightarrow> tx_fate) \<Rightarrow> nat \<Rightarrow> tx_fate" where
  "drop_sender old fate = (case old of None \<Rightarrow> fate | Some (_, tx) \<Rightarrow> fate(tx := TxDropped))"

definition register_waiter ::
    "string \<Rightarrow> u64 \<Rightarrow> wait_kind \<Rightarrow> 'ch imap \<Rightarrow> nat \<times> 'ch imap" where
  "register_waiter iid c kind m =
     (let tx = im_next_chan m
      in (tx, m\<lparr>im_next_chan := Suc tx,
                im_tx_fate := drop_sender (hm_get (im_waiters m) c) ((im_tx_fate m)(tx := TxOpen)),
                im_waiters := hm_insert c (kind, tx) (im_waiters m),
                im_waiter_instance := hm_insert c iid (im_waiter_instance m)\<rparr>))"

text \<open>Every caller of \<open>take_waiter\<close> drops the sender it returns.\<close>

definition take_waiter :: "u64 \<Rightarrow> 'ch imap \<Rightarrow> 'ch imap" where
  "take_waiter c m =
     m\<lparr>im_waiter_instance := hm_remove c (im_waiter_instance m),
       im_tx_fate := drop_sender (hm_get (im_waiters m) c) (im_tx_fate m),
       im_waiters := hm_remove c (im_waiters m)\<rparr>"

definition complete_waiter :: "sim_to_server \<Rightarrow> 'ch imap \<Rightarrow> 'ch imap" where
  "complete_waiter msg m =
     (if corr msg = 0 then m
      else (case hm_get (im_waiters m) (corr msg) of
              None \<Rightarrow> m
            | Some (kind, tx) \<Rightarrow>
                if waiter_matches kind msg
                then m\<lparr>im_waiters := hm_remove (corr msg) (im_waiters m),
                       im_waiter_instance := hm_remove (corr msg) (im_waiter_instance m),
                       im_tx_fate := (im_tx_fate m)(tx := TxSent msg)\<rparr>
                else m))"

definition fail_waiters :: "string \<Rightarrow> 'ch imap \<Rightarrow> 'ch imap" where
  "fail_waiters iid m =
     (let corrs = map fst (filter (\<lambda>(_, i). i = iid) (im_waiter_instance m))
      in fold take_waiter corrs m)"

definition remove_if :: "string \<Rightarrow> u64 \<Rightarrow> 'ch imap \<Rightarrow> 'ch imap" where
  "remove_if iid token m =
     (if owns iid token m
      then fail_waiters iid (m\<lparr>im_inner := hm_remove iid (im_inner m)\<rparr>)
      else m)"

definition excluded_log :: "string list \<Rightarrow> sim_to_server \<Rightarrow> bool" where
  "excluded_log components msg =
     (case payload msg of
        Some (Log log) \<Rightarrow> list_ex (\<lambda>component. component = log_component log) components
      | _ \<Rightarrow> False)"

definition push_inbound :: "string \<Rightarrow> sim_to_server \<Rightarrow> 'ch imap \<Rightarrow> 'ch imap" where
  "push_inbound iid msg m0 =
     (let m = complete_waiter msg m0
      in case hm_get (im_inner m) iid of
           None \<Rightarrow> m
         | Some inst \<Rightarrow>
             if \<not> inbound_visible (inst_read_mask inst) msg then m
             else if excluded_log (inst_exclude_log_components inst) msg then m
             else m\<lparr>im_inner :=
                      hm_insert iid (inst\<lparr>inst_inbound := iq_push msg (inst_inbound inst)\<rparr>)
                        (im_inner m)\<rparr>)"

subsection \<open>Frames\<close>

text \<open>Which fields an operation leaves alone.\<close>

lemma take_waiter_frame [frame_simps]:
  "im_inner (take_waiter c m) = im_inner m"
  "im_next_token (take_waiter c m) = im_next_token m"
  "im_next_corr (take_waiter c m) = im_next_corr m"
  "im_default_instance (take_waiter c m) = im_default_instance m"
  "im_outq (take_waiter c m) = im_outq m"
  "im_next_chan (take_waiter c m) = im_next_chan m"
  by (simp_all add: take_waiter_def)

lemma fold_take_waiter_frame:
  "im_inner (fold take_waiter cs m) = im_inner m"
  "im_next_token (fold take_waiter cs m) = im_next_token m"
  "im_next_corr (fold take_waiter cs m) = im_next_corr m"
  "im_default_instance (fold take_waiter cs m) = im_default_instance m"
  "im_outq (fold take_waiter cs m) = im_outq m"
  "im_next_chan (fold take_waiter cs m) = im_next_chan m"
  by (induction cs arbitrary: m) (simp_all add: frame_simps)

lemma fail_waiters_frame [frame_simps]:
  "im_inner (fail_waiters i m) = im_inner m"
  "im_next_token (fail_waiters i m) = im_next_token m"
  "im_next_corr (fail_waiters i m) = im_next_corr m"
  "im_default_instance (fail_waiters i m) = im_default_instance m"
  "im_outq (fail_waiters i m) = im_outq m"
  "im_next_chan (fail_waiters i m) = im_next_chan m"
  by (simp_all add: fail_waiters_def fold_take_waiter_frame)

lemma complete_waiter_frame [frame_simps]:
  "im_inner (complete_waiter msg m) = im_inner m"
  "im_next_token (complete_waiter msg m) = im_next_token m"
  "im_next_corr (complete_waiter msg m) = im_next_corr m"
  "im_default_instance (complete_waiter msg m) = im_default_instance m"
  "im_outq (complete_waiter msg m) = im_outq m"
  "im_next_chan (complete_waiter msg m) = im_next_chan m"
  by (auto simp: complete_waiter_def split: option.split)

lemma register_waiter_frame [frame_simps]:
  "im_inner (snd (register_waiter i c k m)) = im_inner m"
  "im_next_token (snd (register_waiter i c k m)) = im_next_token m"
  "im_next_corr (snd (register_waiter i c k m)) = im_next_corr m"
  "im_default_instance (snd (register_waiter i c k m)) = im_default_instance m"
  "im_outq (snd (register_waiter i c k m)) = im_outq m"
  "im_next_chan (snd (register_waiter i c k m)) = Suc (im_next_chan m)"
  by (simp_all add: register_waiter_def Let_def)

lemma try_send_frame [frame_simps]:
  "im_inner (snd (try_send ts i msg m)) = im_inner m"
  "im_next_token (snd (try_send ts i msg m)) = im_next_token m"
  "im_next_corr (snd (try_send ts i msg m)) = im_next_corr m"
  "im_default_instance (snd (try_send ts i msg m)) = im_default_instance m"
  "im_waiters (snd (try_send ts i msg m)) = im_waiters m"
  "im_waiter_instance (snd (try_send ts i msg m)) = im_waiter_instance m"
  "im_tx_fate (snd (try_send ts i msg m)) = im_tx_fate m"
  "im_next_chan (snd (try_send ts i msg m)) = im_next_chan m"
  by (auto simp: try_send_def split: option.split)

lemma next_corr_frame [frame_simps]:
  "fst (next_corr m) = im_next_corr m"
  "im_inner (snd (next_corr m)) = im_inner m"
  "im_next_token (snd (next_corr m)) = im_next_token m"
  "im_next_corr (snd (next_corr m)) = im_next_corr m + 1"
  "im_default_instance (snd (next_corr m)) = im_default_instance m"
  "im_outq (snd (next_corr m)) = im_outq m"
  "im_next_chan (snd (next_corr m)) = im_next_chan m"
  by (simp_all add: next_corr_def)

text \<open>The operations on sessions leave the waiters alone, but for \<open>remove_if\<close> and
  \<open>push_inbound\<close>.\<close>

definition same_waiters :: "'ch imap \<Rightarrow> 'ch imap \<Rightarrow> bool" where
  "same_waiters m m' \<longleftrightarrow>
     im_waiters m' = im_waiters m \<and> im_waiter_instance m' = im_waiter_instance m \<and>
     im_tx_fate m' = im_tx_fate m \<and> im_next_chan m' = im_next_chan m"

lemma same_waiters_ops [frame_simps]:
  "same_waiters m m"
  "same_waiters m (snd (imap_insert reg n tx m))"
  "same_waiters m (set_heartbeat i tok hb m)"
  "same_waiters m (snd (next_corr m))"
  "same_waiters m (set_default_instance d m)"
  "same_waiters m (snd (try_send ts i msg m))"
  "same_waiters m (set_read_mask i ps m)"
  "same_waiters m (set_exclude_log_components i ps m)"
  "same_waiters m (snd (try_recv_inbound i m))"
  by (auto simp: same_waiters_def imap_insert_def set_heartbeat_def next_corr_def
      set_default_instance_def set_read_mask_def set_exclude_log_components_def
      try_recv_inbound_def frame_simps Let_def split: option.split prod.split)

lemma push_inbound_waiters:
  "same_waiters (complete_waiter msg m) (push_inbound i msg m)"
  by (auto simp: push_inbound_def same_waiters_def Let_def split: option.split)

subsection \<open>Lookups after updates\<close>

lemma owns_iff: "owns i tok m \<longleftrightarrow> (\<exists>inst. hm_get (im_inner m) i = Some inst \<and> inst_token inst = tok)"
  by (auto simp: owns_def split: option.split)

lemma imap_insert_token [simp]: "fst (imap_insert reg n tx m) = im_next_token m"
  by (simp add: imap_insert_def Let_def)

lemma imap_insert_inner:
  "hm_get (im_inner (snd (imap_insert reg n tx m))) i =
     (if i = reg_instance_id reg
      then Some \<lparr>inst_token = im_next_token m, inst_register = reg, inst_last_heartbeat = None,
                 inst_inbound = iq_new n, inst_outbound_tx = tx,
                 inst_read_mask = [], inst_exclude_log_components = []\<rparr>
      else hm_get (im_inner m) i)"
  by (simp add: imap_insert_def Let_def)

lemma set_heartbeat_inner:
  "hm_get (im_inner (set_heartbeat i tok hb m)) j =
     (if j = i \<and> owns i tok m
      then map_option (\<lambda>inst. inst\<lparr>inst_last_heartbeat := Some hb\<rparr>) (hm_get (im_inner m) i)
      else hm_get (im_inner m) j)"
  by (auto simp: set_heartbeat_def owns_def split: option.split)

lemma remove_if_inner:
  "hm_get (im_inner (remove_if i tok m)) j =
     (if j = i \<and> owns i tok m then None else hm_get (im_inner m) j)"
  by (simp add: remove_if_def frame_simps)

lemma push_inbound_inner:
  "hm_get (im_inner (push_inbound i msg m)) j =
     (if j = i
      then map_option (\<lambda>inst.
             if inbound_visible (inst_read_mask inst) msg \<and>
                \<not> excluded_log (inst_exclude_log_components inst) msg
             then inst\<lparr>inst_inbound := iq_push msg (inst_inbound inst)\<rparr> else inst)
             (hm_get (im_inner m) i)
      else hm_get (im_inner m) j)"
  by (auto simp: push_inbound_def Let_def frame_simps split: option.split)

lemma try_recv_inbound_inner:
  "hm_get (im_inner (snd (try_recv_inbound i m))) j =
     (if j = i
      then map_option (\<lambda>inst. inst\<lparr>inst_inbound := snd (iq_try_recv (inst_inbound inst))\<rparr>)
             (hm_get (im_inner m) i)
      else hm_get (im_inner m) j)"
  by (auto simp: try_recv_inbound_def split: option.split prod.split)

lemma set_read_mask_inner:
  "hm_get (im_inner (set_read_mask i ps m)) j =
     (if j = i then map_option (\<lambda>inst. inst\<lparr>inst_read_mask := ps\<rparr>) (hm_get (im_inner m) i)
      else hm_get (im_inner m) j)"
  by (auto simp: set_read_mask_def split: option.split)

lemma set_exclude_inner:
  "hm_get (im_inner (set_exclude_log_components i cs m)) j =
     (if j = i
      then map_option (\<lambda>inst. inst\<lparr>inst_exclude_log_components := cs\<rparr>) (hm_get (im_inner m) i)
      else hm_get (im_inner m) j)"
  by (auto simp: set_exclude_log_components_def split: option.split)

lemmas inner_lookups =
  imap_insert_inner set_heartbeat_inner remove_if_inner push_inbound_inner
  try_recv_inbound_inner set_read_mask_inner set_exclude_inner

end
