(* ===== verification/Waiters.thy ===== *)
theory Waiters
  imports Instance_Map
begin

text \<open>
  Replies: how a tool call waits for the message that answers it
  (\<open>send_and_wait_for\<close>, \<open>register_waiter\<close>, \<open>take_waiter\<close>, \<open>complete_waiter\<close> and
  \<open>fail_waiters\<close> of \<open>crates/csm-proxy/src/instances.rs\<close>).

  The locale \<open>reply_registry\<close> is the interface a waiting call relies on. The other tasks
  of the process act on the map while the call runs; what they may do is the step relation
  \<open>other_step\<close>, and a \<open>sched\<close> says what they did between two lock acquisitions
  and while the call was suspended on its receiver.
\<close>

subsection \<open>Well-formed waiter tables\<close>

definition waiters_wf :: "'ch imap \<Rightarrow> bool" where
  "waiters_wf m \<longleftrightarrow>
     hm_wf (im_waiters m) \<and> hm_wf (im_waiter_instance m) \<and>
     (\<forall>c. hm_get (im_waiters m) c = None \<longleftrightarrow> hm_get (im_waiter_instance m) c = None) \<and>
     (\<forall>c k tx. hm_get (im_waiters m) c = Some (k, tx) \<longrightarrow>
        tx < im_next_chan m \<and> im_tx_fate m tx = TxOpen) \<and>
     (\<forall>c c' k k' tx. hm_get (im_waiters m) c = Some (k, tx) \<longrightarrow>
        hm_get (im_waiters m) c' = Some (k', tx) \<longrightarrow> c = c')"

lemma waiters_wf_new [wf_intros]: "waiters_wf (imap_new chans)"
  by (simp add: waiters_wf_def imap_new_def)

lemma waiters_wf_same: "same_waiters m m' \<Longrightarrow> waiters_wf m \<Longrightarrow> waiters_wf m'"
  by (simp add: waiters_wf_def same_waiters_def)

lemmas waiters_wf_same_ops [wf_intros] = same_waiters_ops(2-9) [THEN waiters_wf_same]

lemma waiters_wf_take [wf_intros]: "waiters_wf m \<Longrightarrow> waiters_wf (take_waiter c m)"
  by (auto simp: waiters_wf_def take_waiter_def drop_sender_def intro: wf_intros
      split: option.split; metis)

lemma waiters_wf_complete [wf_intros]: "waiters_wf m \<Longrightarrow> waiters_wf (complete_waiter msg m)"
  by (auto simp: waiters_wf_def complete_waiter_def intro: wf_intros split: option.split; metis)

lemma waiters_wf_register [wf_intros]:
  "waiters_wf m \<Longrightarrow> waiters_wf (snd (register_waiter i c k m))"
  by (auto simp: waiters_wf_def register_waiter_def drop_sender_def Let_def intro: wf_intros
      split: option.split; (metis less_irrefl less_SucI)?)

lemma waiters_wf_fail [wf_intros]: "waiters_wf m \<Longrightarrow> waiters_wf (fail_waiters i m)"
proof -
  have "waiters_wf m \<Longrightarrow> waiters_wf (fold take_waiter cs m)" for cs
    by (induction cs arbitrary: m) (auto intro: wf_intros)
  then show "waiters_wf m \<Longrightarrow> waiters_wf (fail_waiters i m)" by (simp add: fail_waiters_def)
qed

lemma waiters_wf_remove_if [wf_intros]: "waiters_wf m \<Longrightarrow> waiters_wf (remove_if i tok m)"
  by (auto simp: remove_if_def intro!: waiters_wf_fail elim: waiters_wf_same [rotated]
      simp add: same_waiters_def)

lemma waiters_wf_push [wf_intros]: "waiters_wf m \<Longrightarrow> waiters_wf (push_inbound i msg m)"
  by (rule waiters_wf_same [OF push_inbound_waiters]) (rule waiters_wf_complete)

lemma register_waiter_view:
  "fst (register_waiter i c k m) = im_next_chan m"
  "hm_get (im_waiters (snd (register_waiter i c k m))) =
     (hm_get (im_waiters m))(c \<mapsto> (k, im_next_chan m))"
  "tx < im_next_chan m \<Longrightarrow> (\<And>k'. hm_get (im_waiters m) c \<noteq> Some (k', tx)) \<Longrightarrow>
   im_tx_fate (snd (register_waiter i c k m)) tx = im_tx_fate m tx"
  by (auto simp: register_waiter_def drop_sender_def Let_def fun_eq_iff split: option.split)

lemma complete_waiter_hit:
  "corr msg \<noteq> 0 \<Longrightarrow> hm_get (im_waiters m) (corr msg) = Some (k, tx) \<Longrightarrow> waiter_matches k msg \<Longrightarrow>
   hm_get (im_waiters (complete_waiter msg m)) = (hm_get (im_waiters m))(corr msg := None) \<and>
   im_tx_fate (complete_waiter msg m) = (im_tx_fate m)(tx := TxSent msg)"
  by (auto simp: complete_waiter_def fun_eq_iff)

lemma complete_waiter_miss:
  "(\<And>k tx. corr msg \<noteq> 0 \<Longrightarrow> hm_get (im_waiters m) (corr msg) = Some (k, tx) \<Longrightarrow>
      \<not> waiter_matches k msg) \<Longrightarrow> complete_waiter msg m = m"
  by (auto simp: complete_waiter_def split: option.split)

text \<open>\<open>remove_if\<close> holds the lock of the map only for its first half, the removal of the entry; the
  waiters are failed under other locks, after it was released.\<close>

definition drop_entry :: "string \<Rightarrow> 'ch imap \<Rightarrow> 'ch imap" where
  "drop_entry iid m = m\<lparr>im_inner := hm_remove iid (im_inner m)\<rparr>"

lemma remove_if_halves:
  "remove_if i t m = (if owns i t m then fail_waiters i (drop_entry i m) else m)"
  by (simp add: remove_if_def drop_entry_def)

lemma same_waiters_drop_entry [frame_simps]: "same_waiters m (drop_entry i m)"
  by (simp add: drop_entry_def same_waiters_def)

lemma waiters_wf_drop_entry [wf_intros]: "waiters_wf m \<Longrightarrow> waiters_wf (drop_entry i m)"
  by (rule waiters_wf_same [OF same_waiters_drop_entry])

text \<open>\<open>push_inbound\<close> completes the waiter first, and takes the lock of the map after it.\<close>

definition queue_inbound :: "string \<Rightarrow> sim_to_server \<Rightarrow> 'ch imap \<Rightarrow> 'ch imap" where
  "queue_inbound iid msg m =
     (case hm_get (im_inner m) iid of
        None \<Rightarrow> m
      | Some inst \<Rightarrow>
          if \<not> inbound_visible (inst_read_mask inst) msg then m
          else if excluded_log (inst_exclude_log_components inst) msg then m
          else m\<lparr>im_inner :=
                   hm_insert iid (inst\<lparr>inst_inbound := iq_push msg (inst_inbound inst)\<rparr>) (im_inner m)\<rparr>)"

lemma push_inbound_halves: "push_inbound i msg m = queue_inbound i msg (complete_waiter msg m)"
  by (simp add: push_inbound_def queue_inbound_def Let_def)

lemma same_waiters_queue [frame_simps]: "same_waiters m (queue_inbound i msg m)"
  by (auto simp: queue_inbound_def same_waiters_def split: option.split)

lemma waiters_wf_queue [wf_intros]: "waiters_wf m \<Longrightarrow> waiters_wf (queue_inbound i msg m)"
  by (rule waiters_wf_same [OF same_waiters_queue])

subsection \<open>What failing the waiters of an instance does\<close>

lemma take_waiter_get:
  "hm_get (im_waiters (take_waiter c m)) c' = (if c' = c then None else hm_get (im_waiters m) c')"
  "hm_get (im_waiter_instance (take_waiter c m)) c' =
     (if c' = c then None else hm_get (im_waiter_instance m) c')"
  by (simp_all add: take_waiter_def)

lemma take_waiter_fate:
  "im_tx_fate (take_waiter c m) tx =
     (if \<exists>k. hm_get (im_waiters m) c = Some (k, tx) then TxDropped else im_tx_fate m tx)"
  by (auto simp: take_waiter_def drop_sender_def split: option.split)

lemma fold_take_get:
  "hm_get (im_waiters (fold take_waiter cs m)) c =
     (if c \<in> set cs then None else hm_get (im_waiters m) c)"
  "hm_get (im_waiter_instance (fold take_waiter cs m)) c =
     (if c \<in> set cs then None else hm_get (im_waiter_instance m) c)"
  by (induction cs arbitrary: m) (auto simp: take_waiter_get)

lemma fold_take_fate:
  "im_tx_fate (fold take_waiter cs m) tx =
     (if \<exists>c \<in> set cs. \<exists>k. hm_get (im_waiters m) c = Some (k, tx) then TxDropped
      else im_tx_fate m tx)"
proof (induction cs arbitrary: m)
  case (Cons c cs)
  show ?case
    by (simp add: Cons.IH take_waiter_get take_waiter_fate) (smt (verit) option.distinct(1))
qed simp

lemma fold_take_next_chan: "im_next_chan (fold take_waiter cs m) = im_next_chan m"
  by (induction cs arbitrary: m) (simp_all add: frame_simps)

lemma fail_waiters_corrs:
  assumes "hm_wf (im_waiter_instance m)"
  shows "c \<in> set (map fst (filter (\<lambda>(_, i'). i' = i) (im_waiter_instance m))) \<longleftrightarrow>
    hm_get (im_waiter_instance m) c = Some i"
  using hm_get_in_set [OF assms] by force

lemma fail_waiters_get:
  assumes "waiters_wf m"
  shows "hm_get (im_waiters (fail_waiters i m)) c =
    (if hm_get (im_waiter_instance m) c = Some i then None else hm_get (im_waiters m) c)"
  using assms by (simp only: fail_waiters_def Let_def fold_take_get fail_waiters_corrs waiters_wf_def)

lemma fail_waiters_fate:
  assumes "waiters_wf m"
  shows "im_tx_fate (fail_waiters i m) tx =
    (if \<exists>c k. hm_get (im_waiters m) c = Some (k, tx) \<and> hm_get (im_waiter_instance m) c = Some i
     then TxDropped else im_tx_fate m tx)"
proof -
  have "hm_wf (im_waiter_instance m)" using assms by (simp add: waiters_wf_def)
  then show ?thesis
    unfolding fail_waiters_def Let_def fold_take_fate Bex_def fail_waiters_corrs [OF \<open>hm_wf _\<close>]
    by auto
qed

subsection \<open>The interface of a reply registry\<close>

locale reply_registry =
  fixes wf :: "'s \<Rightarrow> bool"
    and waiting :: "'s \<Rightarrow> u64 \<Rightarrow> (wait_kind \<times> nat) option"
    and fate :: "'s \<Rightarrow> nat \<Rightarrow> tx_fate"
    and fresh :: "'s \<Rightarrow> nat"
    and reg :: "string \<Rightarrow> u64 \<Rightarrow> wait_kind \<Rightarrow> 's \<Rightarrow> nat \<times> 's"
    and cancel :: "u64 \<Rightarrow> 's \<Rightarrow> 's"
    and complete :: "sim_to_server \<Rightarrow> 's \<Rightarrow> 's"
  assumes wf_reg: "wf s \<Longrightarrow> wf (snd (reg i c k s))"
    and wf_cancel: "wf s \<Longrightarrow> wf (cancel c s)"
    and wf_complete: "wf s \<Longrightarrow> wf (complete msg s)"
    and wf_open: "wf s \<Longrightarrow> waiting s c = Some (k, tx) \<Longrightarrow> fate s tx = TxOpen \<and> tx < fresh s"
    and wf_inj: "wf s \<Longrightarrow> waiting s c = Some (k, tx) \<Longrightarrow> waiting s c' = Some (k', tx) \<Longrightarrow> c = c'"
    and reg_handle: "fst (reg i c k s) = fresh s" "fresh (snd (reg i c k s)) = Suc (fresh s)"
    and reg_waiting: "waiting (snd (reg i c k s)) = (waiting s)(c \<mapsto> (k, fresh s))"
    and reg_fate: "tx < fresh s \<Longrightarrow> (\<And>k'. waiting s c \<noteq> Some (k', tx)) \<Longrightarrow>
        fate (snd (reg i c k s)) tx = fate s tx"
    and cancel_waiting: "waiting (cancel c s) = (waiting s)(c := None)"
    and cancel_fate: "fate (cancel c s) tx =
        (if \<exists>k. waiting s c = Some (k, tx) then TxDropped else fate s tx)"
    and cancel_fresh: "fresh (cancel c s) = fresh s"
    and complete_fresh: "fresh (complete msg s) = fresh s"
    and complete_hit: "corr msg \<noteq> 0 \<Longrightarrow> waiting s (corr msg) = Some (k, tx) \<Longrightarrow>
        waiter_matches k msg \<Longrightarrow>
        waiting (complete msg s) = (waiting s)(corr msg := None) \<and>
        fate (complete msg s) = (fate s)(tx := TxSent msg)"
    and complete_miss: "(\<And>k tx. corr msg \<noteq> 0 \<Longrightarrow> waiting s (corr msg) = Some (k, tx) \<Longrightarrow>
        \<not> waiter_matches k msg) \<Longrightarrow> complete msg s = s"
begin

text \<open>The life of one registration: waiting, or resolved by a matching reply, or dropped.\<close>

definition slot :: "u64 \<Rightarrow> wait_kind \<Rightarrow> nat \<Rightarrow> 's \<Rightarrow> bool" where
  "slot c k tx s \<longleftrightarrow>
     wf s \<and> tx < fresh s \<and>
     (waiting s c = Some (k, tx) \<or>
      waiting s c = None \<and>
        (fate s tx = TxDropped \<or>
         (\<exists>msg. fate s tx = TxSent msg \<and> corr msg = c \<and> waiter_matches k msg)))"

lemma slot_registered: "wf s \<Longrightarrow> slot c k (fst (reg i c k s)) (snd (reg i c k s))"
  by (simp add: slot_def wf_reg reg_handle reg_waiting)

lemma slot_not_other:
  assumes "slot c k tx s" and "c' \<noteq> c"
  shows "waiting s c' \<noteq> Some (k', tx)"
  using assms wf_inj [of s c k tx c' k'] wf_open [of s c' k' tx] by (auto simp: slot_def)

lemma slot_reg:
  assumes "slot c k tx s" and "c' \<noteq> c"
  shows "slot c k tx (snd (reg i c' k' s))"
proof -
  have "fate (snd (reg i c' k' s)) tx = fate s tx"
    using assms(1) slot_not_other [OF assms] by (intro reg_fate) (simp_all add: slot_def)
  with assms show ?thesis by (auto simp: slot_def wf_reg reg_handle reg_waiting)
qed

lemma slot_cancel: "slot c k tx s \<Longrightarrow> slot c k tx (cancel c' s)"
  using slot_not_other [of c k tx s c']
  by (cases "c' = c") (auto simp: slot_def wf_cancel cancel_waiting cancel_fate cancel_fresh)

lemma slot_complete:
  assumes "slot c k tx s" shows "slot c k tx (complete msg s)"
proof (cases "\<exists>k' tx'. corr msg \<noteq> 0 \<and> waiting s (corr msg) = Some (k', tx') \<and> waiter_matches k' msg")
  case False
  then have "complete msg s = s" by (intro complete_miss) blast
  with assms show ?thesis by simp
next
  case True
  then obtain k' tx' where hit: "corr msg \<noteq> 0" "waiting s (corr msg) = Some (k', tx')"
      "waiter_matches k' msg" by blast
  show ?thesis
  proof (cases "corr msg = c")
    case True
    with assms hit show ?thesis
      using complete_hit [OF hit] by (auto simp: slot_def wf_complete complete_fresh)
  next
    case False
    then have "tx' \<noteq> tx" using slot_not_other [OF assms, of "corr msg" k'] hit(2) by auto
    with assms False show ?thesis
      using complete_hit [OF hit] by (auto simp: slot_def wf_complete complete_fresh)
  qed
qed

lemma slot_frame:
  "slot c k tx s \<Longrightarrow> wf s' \<Longrightarrow> waiting s' = waiting s \<Longrightarrow> fate s' = fate s \<Longrightarrow> fresh s \<le> fresh s' \<Longrightarrow>
   slot c k tx s'"
  by (auto simp: slot_def)

lemma slot_sent: "slot c k tx s \<Longrightarrow> fate s tx = TxSent msg \<Longrightarrow>
    corr msg = c \<and> waiter_matches k msg \<and> waiting s c = None"
  by (auto simp: slot_def dest: wf_open)

lemma slot_dropped: "slot c k tx s \<Longrightarrow> fate s tx = TxDropped \<Longrightarrow> waiting s c = None"
  by (auto simp: slot_def dest: wf_open)

text \<open>Once a sender was used or dropped, nothing changes its fate.\<close>

definition resolved :: "nat \<Rightarrow> tx_fate \<Rightarrow> 's \<Rightarrow> bool" where
  "resolved tx f s \<longleftrightarrow> wf s \<and> tx < fresh s \<and> fate s tx = f \<and> f \<noteq> TxOpen"

lemma resolved_not_waiting: "resolved tx f s \<Longrightarrow> waiting s c \<noteq> Some (k, tx)"
  using wf_open [of s c k tx] by (auto simp: resolved_def)

lemma resolved_reg: "resolved tx f s \<Longrightarrow> resolved tx f (snd (reg i c k s))"
  using resolved_not_waiting [of tx f s] by (auto simp: resolved_def wf_reg reg_handle reg_fate)

lemma resolved_cancel: "resolved tx f s \<Longrightarrow> resolved tx f (cancel c s)"
  using resolved_not_waiting [of tx f s] by (auto simp: resolved_def wf_cancel cancel_fate cancel_fresh)

lemma resolved_complete:
  assumes "resolved tx f s" shows "resolved tx f (complete msg s)"
proof (cases "\<exists>k' tx'. corr msg \<noteq> 0 \<and> waiting s (corr msg) = Some (k', tx') \<and> waiter_matches k' msg")
  case False
  then have "complete msg s = s" by (intro complete_miss) blast
  with assms show ?thesis by simp
next
  case True
  then obtain k' tx' where hit: "corr msg \<noteq> 0" "waiting s (corr msg) = Some (k', tx')"
      "waiter_matches k' msg" by blast
  with resolved_not_waiting [OF assms] have "tx' \<noteq> tx" by blast
  with assms complete_hit [OF hit] show ?thesis
    by (simp add: resolved_def wf_complete complete_fresh)
qed

lemma resolved_frame:
  "resolved tx f s \<Longrightarrow> wf s' \<Longrightarrow> fate s' = fate s \<Longrightarrow> fresh s \<le> fresh s' \<Longrightarrow> resolved tx f s'"
  by (auto simp: resolved_def)

lemma complete_resolves:
  assumes "wf s" and "corr msg \<noteq> 0" and "waiting s (corr msg) = Some (k, tx)" and "waiter_matches k msg"
  shows "resolved tx (TxSent msg) (complete msg s)"
  using assms complete_hit [OF assms(2-4)] wf_open [OF assms(1,3)]
  by (simp add: resolved_def wf_complete complete_fresh)

end

interpretation rr: reply_registry waiters_wf "\<lambda>m. hm_get (im_waiters m)" im_tx_fate im_next_chan
    register_waiter take_waiter complete_waiter
proof unfold_locales
  fix m :: "'a imap" and c k tx c' k'
  assume wf: "waiters_wf m" and w: "hm_get (im_waiters m) c = Some (k, tx)"
  show "im_tx_fate m tx = TxOpen \<and> tx < im_next_chan m"
    using wf w by (auto simp: waiters_wf_def)
  show "c = c'" if "hm_get (im_waiters m) c' = Some (k', tx)"
    using wf w that unfolding waiters_wf_def by blast
qed (auto simp: fun_eq_iff take_waiter_get take_waiter_fate frame_simps register_waiter_view
    complete_waiter_hit complete_waiter_miss intro: wf_intros)

subsection \<open>What the other tasks may do\<close>

text \<open>
  One step of any other task of the process, seen from a call that waits under the
  correlation id \<open>c\<close>. Every operation of the map is a step; other calls register and
  cancel waiters of their own, which have other correlation ids; \<open>os_entry\<close> and \<open>os_fail\<close> are the
  two halves of \<open>remove_if\<close>, \<open>os_complete\<close> and \<open>os_queue\<close> those of \<open>push_inbound\<close>; \<open>os_channels\<close> is a session creating an outbound channel or its stream
  receiving from one.
\<close>

inductive other_step :: "'ch try_send_fn \<Rightarrow> u64 \<Rightarrow> 'ch imap \<Rightarrow> 'ch imap \<Rightarrow> bool"
  for ts :: "'ch try_send_fn" and c :: u64 where
  os_insert: "other_step ts c m (snd (imap_insert reg n tx m))"
| os_heartbeat: "other_step ts c m (set_heartbeat i tok hb m)"
| os_remove: "other_step ts c m (remove_if i tok m)"
| os_entry: "other_step ts c m (drop_entry i m)"
| os_fail: "other_step ts c m (fail_waiters i m)"
| os_default: "other_step ts c m (set_default_instance d m)"
| os_next_corr: "other_step ts c m (snd (next_corr m))"
| os_try_send: "other_step ts c m (snd (try_send ts i msg m))"
| os_read_mask: "other_step ts c m (set_read_mask i paths m)"
| os_exclude: "other_step ts c m (set_exclude_log_components i comps m)"
| os_recv: "other_step ts c m (snd (try_recv_inbound i m))"
| os_push: "other_step ts c m (push_inbound i reply m)"
| os_complete: "other_step ts c m (complete_waiter reply m)"
| os_queue: "other_step ts c m (queue_inbound i reply m)"
| os_register: "c' \<noteq> c \<Longrightarrow> other_step ts c m (snd (register_waiter i c' k m))"
| os_take: "c' \<noteq> c \<Longrightarrow> other_step ts c m (take_waiter c' m)"
| os_channels: "im_next_chan m \<le> n \<Longrightarrow> other_step ts c m (m\<lparr>im_outq := q, im_next_chan := n\<rparr>)"

abbreviation others :: "'ch try_send_fn \<Rightarrow> u64 \<Rightarrow> 'ch imap \<Rightarrow> 'ch imap \<Rightarrow> bool" where
  "others ts c \<equiv> rtranclp (other_step ts c)"

datatype rx_result = RxReply sim_to_server | RxClosed | RxElapsed

text \<open>\<open>gap\<close> is what the other tasks did before the call takes its next lock, and
  \<open>await_rx\<close> what \<open>tokio::time::timeout(timeout, rx).await\<close> came to.\<close>

record 'ch sched =
  gap :: "'ch imap \<Rightarrow> 'ch imap"
  await_rx :: "nat \<Rightarrow> nat \<Rightarrow> 'ch imap \<Rightarrow> rx_result \<times> 'ch imap"

text \<open>The documented behaviour the code relies on: a receiver yields the message its sender
  sent, an error when the sender was dropped unsent, or else the timeout elapses.\<close>

definition rx_agrees :: "rx_result \<Rightarrow> tx_fate \<Rightarrow> bool" where
  "rx_agrees r fate =
     (case r of RxReply msg \<Rightarrow> fate = TxSent msg | RxClosed \<Rightarrow> fate = TxDropped | RxElapsed \<Rightarrow> True)"

definition sched_ok :: "'ch try_send_fn \<Rightarrow> u64 \<Rightarrow> 'ch sched \<Rightarrow> bool" where
  "sched_ok ts c sc \<longleftrightarrow>
     (\<forall>m. others ts c m (gap sc m)) \<and>
     (\<forall>rx t m. others ts c m (snd (await_rx sc rx t m)) \<and>
        rx_agrees (fst (await_rx sc rx t m)) (im_tx_fate (snd (await_rx sc rx t m)) rx))"

definition send_and_wait_for ::
    "'ch try_send_fn \<Rightarrow> 'ch sched \<Rightarrow> string \<Rightarrow> server_to_sim \<Rightarrow> nat \<Rightarrow> wait_kind \<Rightarrow> 'ch imap \<Rightarrow>
     (wait_error + sim_to_server) \<times> 'ch imap" where
  "send_and_wait_for ts sc iid msg timeout kind m =
     (if inst_get iid m = None then (Inl WaitUnknownInstance, m)
      else
        let c = req_corr msg;
            (rx, m1) = register_waiter iid c kind (gap sc m);
            (sent, m2) = try_send ts iid msg (gap sc m1)
        in case sent of
             Inl SendUnknownInstance \<Rightarrow> (Inl WaitUnknownInstance, take_waiter c m2)
           | Inl SendQueueFull \<Rightarrow> (Inl WaitQueueFull, take_waiter c m2)
           | Inr _ \<Rightarrow>
               (case await_rx sc rx timeout m2 of
                  (RxReply reply, m3) \<Rightarrow> (Inr reply, m3)
                | (RxClosed, m3) \<Rightarrow> (Inl WaitDisconnected, m3)
                | (RxElapsed, m3) \<Rightarrow> (Inl WaitTimeout, take_waiter c m3)))"

definition send_and_wait ::
    "'ch try_send_fn \<Rightarrow> 'ch sched \<Rightarrow> string \<Rightarrow> server_to_sim \<Rightarrow> nat \<Rightarrow> 'ch imap \<Rightarrow>
     (wait_error + sim_to_server) \<times> 'ch imap" where
  "send_and_wait ts sc iid msg timeout m = send_and_wait_for ts sc iid msg timeout WaitAny m"

subsection \<open>A registration survives what the others do\<close>

lemma waiters_wf_channels:
  "im_next_chan m \<le> n \<Longrightarrow> waiters_wf m \<Longrightarrow> waiters_wf (m\<lparr>im_outq := q, im_next_chan := n\<rparr>)"
  unfolding waiters_wf_def by simp (meson less_le_trans)

lemma rr_slot_wf: "rr.slot c k tx m \<Longrightarrow> waiters_wf m"
  by (simp add: rr.slot_def)

lemma rr_slot_same: "rr.slot c k tx m \<Longrightarrow> same_waiters m m' \<Longrightarrow> rr.slot c k tx m'"
  by (rule rr.slot_frame [of c k tx m])
    (auto simp: same_waiters_def rr.slot_def elim: waiters_wf_same [rotated])

lemma rr_slot_fold_take: "rr.slot c k tx m \<Longrightarrow> rr.slot c k tx (fold take_waiter cs m)"
  by (induction cs arbitrary: m) (auto intro: rr.slot_cancel)

lemma rr_slot_fail: "rr.slot c k tx m \<Longrightarrow> rr.slot c k tx (fail_waiters i m)"
  by (simp add: fail_waiters_def rr_slot_fold_take)

lemma rr_slot_remove_if: "rr.slot c k tx m \<Longrightarrow> rr.slot c k tx (remove_if i tok m)"
  by (auto simp: remove_if_halves intro: rr_slot_fail rr_slot_same frame_simps)

lemma rr_slot_other_step:
  assumes "other_step ts c m m'" and "rr.slot c k tx m"
  shows "rr.slot c k tx m'"
  using assms
proof (induction rule: other_step.induct)
  case (os_push m i reply)
  then show ?case
    by (intro rr_slot_same [OF rr.slot_complete push_inbound_waiters])
next
  case (os_complete m reply)
  then show ?case by (intro rr.slot_complete)
next
  case (os_channels m n q)
  then show ?case
    by (intro rr.slot_frame [OF os_channels.prems] waiters_wf_channels)
      (auto dest: rr_slot_wf)
qed (auto intro: rr_slot_same rr_slot_remove_if rr_slot_fail rr.slot_reg rr.slot_cancel frame_simps)

lemma rr_slot_others:
  "others ts c m m' \<Longrightarrow> rr.slot c k tx m \<Longrightarrow> rr.slot c k tx m'"
  by (induction rule: rtranclp_induct) (auto intro: rr_slot_other_step)

lemma other_step_wf: "other_step ts c m m' \<Longrightarrow> waiters_wf m \<Longrightarrow> waiters_wf m'"
proof (induction rule: other_step.induct)
  case (os_channels m n q)
  then show ?case by (intro waiters_wf_channels)
qed (auto intro: wf_intros waiters_wf_same frame_simps)

lemma others_wf: "others ts c m m' \<Longrightarrow> waiters_wf m \<Longrightarrow> waiters_wf m'"
  by (induction rule: rtranclp_induct) (auto intro: other_step_wf)

subsection \<open>A resolved registration stays resolved\<close>

lemma rr_resolved_same: "rr.resolved tx f m \<Longrightarrow> same_waiters m m' \<Longrightarrow> rr.resolved tx f m'"
  by (rule rr.resolved_frame [of tx f m])
    (auto simp: same_waiters_def rr.resolved_def elim: waiters_wf_same [rotated])

lemma rr_resolved_fold_take: "rr.resolved tx f m \<Longrightarrow> rr.resolved tx f (fold take_waiter cs m)"
  by (induction cs arbitrary: m) (auto intro: rr.resolved_cancel)

lemma rr_resolved_fail: "rr.resolved tx f m \<Longrightarrow> rr.resolved tx f (fail_waiters i m)"
  by (simp add: fail_waiters_def rr_resolved_fold_take)

lemma rr_resolved_remove_if: "rr.resolved tx f m \<Longrightarrow> rr.resolved tx f (remove_if i tok m)"
  by (auto simp: remove_if_halves intro: rr_resolved_fail rr_resolved_same frame_simps)

lemma rr_resolved_other_step:
  assumes "other_step ts c m m'" and "rr.resolved tx f m"
  shows "rr.resolved tx f m'"
  using assms
proof (induction rule: other_step.induct)
  case (os_push m i reply)
  then show ?case
    by (intro rr_resolved_same [OF rr.resolved_complete push_inbound_waiters])
next
  case (os_complete m reply)
  then show ?case by (intro rr.resolved_complete)
next
  case (os_channels m n q)
  then show ?case
    by (intro rr.resolved_frame [OF os_channels.prems] waiters_wf_channels)
      (auto simp: rr.resolved_def)
qed (auto intro: rr_resolved_same rr_resolved_remove_if rr_resolved_fail rr.resolved_reg rr.resolved_cancel frame_simps)

lemma rr_resolved_others:
  "others ts c m m' \<Longrightarrow> rr.resolved tx f m \<Longrightarrow> rr.resolved tx f m'"
  by (induction rule: rtranclp_induct) (auto intro: rr_resolved_other_step)

lemma push_resolves:
  assumes "waiters_wf m" and "corr reply \<noteq> 0" and "hm_get (im_waiters m) (corr reply) = Some (k, tx)"
    and "waiter_matches k reply"
  shows "rr.resolved tx (TxSent reply) (push_inbound j reply m)"
  by (rule rr_resolved_same [OF rr.complete_resolves [OF assms] push_inbound_waiters])

lemma remove_resolves:
  assumes "waiters_wf m" and "owns i tok m" and "hm_get (im_waiters m) c = Some (k, tx)"
    and "hm_get (im_waiter_instance m) c = Some i"
  shows "rr.resolved tx TxDropped (remove_if i tok m)"
proof -
  let ?m = "m\<lparr>im_inner := hm_remove i (im_inner m)\<rparr>"
  have wf: "waiters_wf ?m" using assms(1) by (simp add: waiters_wf_def)
  have "\<exists>c k. hm_get (im_waiters ?m) c = Some (k, tx) \<and> hm_get (im_waiter_instance ?m) c = Some i"
    using assms(3,4) by auto
  with assms(2) have "im_tx_fate (remove_if i tok m) tx = TxDropped"
    by (simp add: remove_if_def fail_waiters_fate [OF wf])
  moreover have "im_next_chan (remove_if i tok m) = im_next_chan m"
    by (simp add: remove_if_def fail_waiters_def fold_take_next_chan)
  ultimately show ?thesis
    using waiters_wf_remove_if [OF assms(1), of i tok] rr.wf_open [OF assms(1,3)]
    by (simp add: rr.resolved_def)
qed

subsection \<open>What a waiting call returns\<close>

lemma sched_okD:
  assumes "sched_ok ts c sc"
  shows "others ts c m (gap sc m)"
    and "await_rx sc rx t m = (r, m') \<Longrightarrow> others ts c m m' \<and> rx_agrees r (im_tx_fate m' rx)"
  using assms by (auto simp: sched_ok_def) (metis fst_conv snd_conv)+

lemma rr_slot_try_send: "rr.slot c k tx m \<Longrightarrow> rr.slot c k tx (snd (try_send ts i msg m))"
  by (auto intro: rr_slot_same frame_simps)

lemma send_and_wait_outcome:
  assumes ok: "sched_ok ts (req_corr msg) sc" and wf: "waiters_wf m"
    and new: "hm_get (im_waiters m) (req_corr msg) = None"
    and run: "send_and_wait_for ts sc iid msg t kind m = (r, m')"
  shows "waiters_wf m' \<and> hm_get (im_waiters m') (req_corr msg) = None \<and>
    (\<forall>reply. r = Inr reply \<longrightarrow> corr reply = req_corr msg \<and> waiter_matches kind reply)"
proof (cases "inst_get iid m = None")
  case True
  with run wf new show ?thesis by (auto simp: send_and_wait_for_def)
next
  case False
  let ?c = "req_corr msg"
  obtain rx m1 where reg: "register_waiter iid ?c kind (gap sc m) = (rx, m1)" by fastforce
  obtain sent m2 where snt: "try_send ts iid msg (gap sc m1) = (sent, m2)" by fastforce
  have "waiters_wf (gap sc m)" using others_wf [OF sched_okD(1) [OF ok] wf] .
  from rr.slot_registered [OF this, of ?c kind iid] have "rr.slot ?c kind rx m1" by (simp add: reg)
  then have "rr.slot ?c kind rx (gap sc m1)" by (rule rr_slot_others [OF sched_okD(1) [OF ok]])
  from rr_slot_try_send [OF this, of ts iid msg] have slot2: "rr.slot ?c kind rx m2"
    by (simp add: snt)
  have cancelled: "waiters_wf (take_waiter ?c n) \<and>
      hm_get (im_waiters (take_waiter ?c n)) ?c = None" if "rr.slot ?c kind rx n" for n
    using rr.slot_cancel [OF that, of ?c] by (simp add: rr_slot_wf take_waiter_get)
  show ?thesis
  proof (cases sent)
    case (Inl e)
    with run False cancelled [OF slot2] show ?thesis
      by (cases e) (auto simp: send_and_wait_for_def reg snt Let_def)
  next
    case (Inr u)
    obtain rr m3 where aw: "await_rx sc rx t m2 = (rr, m3)" by fastforce
    from sched_okD(2) [OF ok aw] have agree: "rx_agrees rr (im_tx_fate m3 rx)"
      and slot3: "rr.slot ?c kind rx m3" by (auto intro: rr_slot_others [OF _ slot2])
    show ?thesis
      using run False Inr agree cancelled [OF slot3] rr_slot_wf [OF slot3]
        rr.slot_sent [OF slot3] rr.slot_dropped [OF slot3]
      by (cases rr) (auto simp: send_and_wait_for_def reg snt aw Let_def rx_agrees_def)
  qed
qed

subsection \<open>Concrete channels and schedules\<close>

text \<open>A bounded channel whose contents are a list, and a schedule in which the simulator
  answers with one message while the call waits: the instances at which the witnesses
  evaluate.\<close>

definition list_try_send :: "nat \<Rightarrow> server_to_sim list try_send_fn" where
  "list_try_send n q msg = (if length q < n then Some (q @ [msg]) else None)"

definition answering :: "string \<Rightarrow> sim_to_server \<Rightarrow> 'ch sched" where
  "answering i reply =
     \<lparr>gap = (\<lambda>m. m),
      await_rx = (\<lambda>rx t m.
        let m' = push_inbound i reply m
        in if im_tx_fate m' rx = TxSent reply then (RxReply reply, m') else (RxElapsed, m'))\<rparr>"

lemma answering_ok: "sched_ok ts c (answering i reply)"
  by (auto simp: sched_ok_def answering_def Let_def rx_agrees_def intro: os_push)

definition one_instance :: "server_to_sim list imap" where
  "one_instance = snd (imap_insert (sample_register ''a'') 4 0 (imap_new (\<lambda>_. [])))"

definition shutdown_request :: "u64 \<Rightarrow> server_to_sim" where
  "shutdown_request c = \<lparr>req_corr = c, req_ack_requested = False, req_payload = Some Shutdown\<rparr>"

lemma shutdown_request_corr [simp]: "req_corr (shutdown_request c) = c"
  by (simp add: shutdown_request_def)

lemma one_instance_wf: "waiters_wf one_instance"
  unfolding one_instance_def by (intro wf_intros)

lemma one_instance_empty:
  "im_waiters one_instance = []" "im_waiter_instance one_instance = []"
  by (simp_all add: one_instance_def imap_insert_def imap_new_def Let_def)

definition paint_reply :: "u64 \<Rightarrow> sim_to_server" where
  "paint_reply c =
     envelope 1 c (UiResult \<lparr>ui_painted = True, ui_generation = 9, ui_activity = ''Home''\<rparr>)"

lemma answered_run:
  "fst (send_and_wait_for (list_try_send 1) (answering ''a'' (paint_reply 5)) ''a''
     (shutdown_request 5) 2000 WaitUiResult one_instance) = Inr (paint_reply 5)"
  by (simp add: send_and_wait_for_def one_instance_def inst_get_def imap_insert_def imap_new_def
      Let_def answering_def register_waiter_def drop_sender_def try_send_def list_try_send_def
      push_inbound_def complete_waiter_def waiter_matches_def paint_reply_def shutdown_request_def
      inbound_visible_def excluded_log_def)

subsection \<open>Properties\<close>

text \<open>C3. A reply handed to a waiting call answers that call: whatever the other tasks do to the
  map while it waits, the message has the correlation id of the request and is of the kind the
  call waits for.\<close>

theorem reply_answers_the_request:
  assumes "sched_ok ts (req_corr msg) sc" and "waiters_wf m"
    and "hm_get (im_waiters m) (req_corr msg) = None"
    and "fst (send_and_wait_for ts sc iid msg timeout kind m) = Inr reply"
  shows "corr reply = req_corr msg \<and> waiter_matches kind reply"
proof -
  obtain r m' where "send_and_wait_for ts sc iid msg timeout kind m = (r, m')" by fastforce
  with send_and_wait_outcome [OF assms(1-3) this] assms(4) show ?thesis by simp
qed

theorem reply_answers_the_request_witness:
  "corr (paint_reply 5) = 5 \<and> waiter_matches WaitUiResult (paint_reply 5)"
  using reply_answers_the_request [OF answering_ok one_instance_wf _ answered_run]
  by (simp add: one_instance_empty)

text \<open>The event \<open>ev\<close> resolves the waiting call: while the call is suspended, before its timeout,
  the event happens while the waiter is still registered.\<close>

definition meanwhile ::
    "'ch try_send_fn \<Rightarrow> 'ch sched \<Rightarrow> string \<Rightarrow> u64 \<Rightarrow> wait_kind \<Rightarrow> nat \<Rightarrow> ('ch imap \<Rightarrow> 'ch imap \<Rightarrow> bool) \<Rightarrow> bool"
  where
  "meanwhile ts sc iid c kind timeout ev \<longleftrightarrow>
     (\<forall>rx n. hm_get (im_waiters n) c = Some (kind, rx) \<and> hm_get (im_waiter_instance n) c = Some iid \<longrightarrow>
        fst (await_rx sc rx timeout n) \<noteq> RxElapsed \<and>
        (\<exists>n1 n2. others ts c n n1 \<and> hm_get (im_waiters n1) c = Some (kind, rx) \<and>
           hm_get (im_waiter_instance n1) c = Some iid \<and> ev n1 n2 \<and>
           others ts c n2 (snd (await_rx sc rx timeout n))))"

lemma meanwhile_resolved:
  assumes during: "meanwhile ts sc iid (req_corr msg) kind timeout ev"
    and ok: "sched_ok ts (req_corr msg) sc" and wf: "waiters_wf m" and quiet: "gap sc = (\<lambda>m. m)"
    and sent: "inst_get iid m \<noteq> None" "fst (try_send ts iid msg m) = Inr ()"
    and ev: "\<And>n1 n2 rx. waiters_wf n1 \<Longrightarrow> hm_get (im_waiters n1) (req_corr msg) = Some (kind, rx) \<Longrightarrow>
      hm_get (im_waiter_instance n1) (req_corr msg) = Some iid \<Longrightarrow> ev n1 n2 \<Longrightarrow> rr.resolved rx f n2"
  shows "fst (send_and_wait_for ts sc iid msg timeout kind m) =
    (case f of TxSent reply \<Rightarrow> Inr reply | _ \<Rightarrow> Inl WaitDisconnected)"
proof -
  let ?c = "req_corr msg"
  obtain rx m1 where reg: "register_waiter iid ?c kind m = (rx, m1)" by fastforce
  obtain st m2 where snt: "try_send ts iid msg m1 = (st, m2)" by fastforce
  have same: "im_inner m1 = im_inner m" "im_outq m1 = im_outq m"
    using reg by (auto simp: register_waiter_def drop_sender_def Let_def split: option.splits)
  then have "st = Inr ()" using sent(2) snt by (auto simp: try_send_def split: option.splits)
  have keep: "same_waiters m1 m2" using snt same_waiters_ops by (metis snd_conv)
  have m2: "waiters_wf m2" "hm_get (im_waiters m2) ?c = Some (kind, rx)"
      "hm_get (im_waiter_instance m2) ?c = Some iid"
    using waiters_wf_register [OF wf, where i = iid and c = ?c and k = kind]
      register_waiter_view(1,2) [of iid ?c kind m] reg keep
    by (auto simp: same_waiters_def register_waiter_def Let_def elim: waiters_wf_same [rotated])
  obtain r m3 where aw: "await_rx sc rx timeout m2 = (r, m3)" by fastforce
  from during m2 aw obtain n1 n2 where r: "r \<noteq> RxElapsed" and n: "others ts ?c m2 n1"
      "hm_get (im_waiters n1) ?c = Some (kind, rx)" "hm_get (im_waiter_instance n1) ?c = Some iid"
      "ev n1 n2" "others ts ?c n2 m3"
    unfolding meanwhile_def by fastforce
  have "rr.resolved rx f m3"
    by (rule rr_resolved_others [OF n(5) ev [OF others_wf [OF n(1) m2(1)] n(2-4)]])
  with sched_okD(2) [OF ok aw] r show ?thesis
    using sent(1) by (cases r; cases f)
      (auto simp: send_and_wait_for_def reg snt aw quiet \<open>st = Inr ()\<close> Let_def rx_agrees_def rr.resolved_def)
qed

text \<open>C18. A waiting call learns what happens to its request: once the request is in the channel, a
  matching reply that any session delivers before the timeout is what the call returns, and if
  the session of the instance ends first, the call returns \<open>Disconnected\<close>; whatever else the
  other tasks do before and after.\<close>

theorem waiting_call_learns_its_fate:
  assumes "sched_ok ts (req_corr msg) sc" and "waiters_wf m" and "gap sc = (\<lambda>m. m)"
    and "inst_get iid m \<noteq> None" and "fst (try_send ts iid msg m) = Inr ()"
  shows "(req_corr msg \<noteq> 0 \<and> corr reply = req_corr msg \<and> waiter_matches kind reply \<and>
      meanwhile ts sc iid (req_corr msg) kind timeout (\<lambda>n n'. n' = push_inbound j reply n) \<longrightarrow>
      fst (send_and_wait_for ts sc iid msg timeout kind m) = Inr reply) \<and>
    (meanwhile ts sc iid (req_corr msg) kind timeout
       (\<lambda>n n'. \<exists>tok. owns iid tok n \<and> n' = remove_if iid tok n) \<longrightarrow>
      fst (send_and_wait_for ts sc iid msg timeout kind m) = Inl WaitDisconnected)"
proof (intro conjI impI)
  assume h: "req_corr msg \<noteq> 0 \<and> corr reply = req_corr msg \<and> waiter_matches kind reply \<and>
      meanwhile ts sc iid (req_corr msg) kind timeout (\<lambda>n n'. n' = push_inbound j reply n)"
  have "fst (send_and_wait_for ts sc iid msg timeout kind m) =
      (case TxSent reply of TxSent reply \<Rightarrow> Inr reply | _ \<Rightarrow> Inl WaitDisconnected)"
    by (rule meanwhile_resolved [OF _ assms, where ev = "\<lambda>n n'. n' = push_inbound j reply n"])
      (use h push_resolves [of _ reply kind _ j] in auto)
  then show "fst (send_and_wait_for ts sc iid msg timeout kind m) = Inr reply" by simp
next
  assume h: "meanwhile ts sc iid (req_corr msg) kind timeout
      (\<lambda>n n'. \<exists>tok. owns iid tok n \<and> n' = remove_if iid tok n)"
  have "fst (send_and_wait_for ts sc iid msg timeout kind m) =
      (case TxDropped of TxSent reply \<Rightarrow> Inr reply | _ \<Rightarrow> Inl WaitDisconnected)"
    by (rule meanwhile_resolved [OF h assms]) (use remove_resolves in blast)
  then show "fst (send_and_wait_for ts sc iid msg timeout kind m) = Inl WaitDisconnected" by simp
qed

lemma answering_meanwhile:
  assumes "c \<noteq> 0" and "corr reply = c" and "waiter_matches kind reply"
  shows "meanwhile ts (answering i reply) iid c kind timeout (\<lambda>n n'. n' = push_inbound i reply n)"
proof -
  have "im_tx_fate (push_inbound i reply n) rx = TxSent reply"
    if "hm_get (im_waiters n) c = Some (kind, rx)" for n :: "'a imap" and rx
    using complete_waiter_hit [of reply n kind rx] push_inbound_waiters [of reply n i] assms that
    by (simp add: same_waiters_def)
  then show ?thesis by (fastforce simp: meanwhile_def answering_def Let_def)
qed

theorem waiting_call_learns_its_fate_witness:
  "fst (send_and_wait_for (list_try_send 1) (answering ''b'' (paint_reply 5)) ''a''
     (shutdown_request 5) 2000 WaitUiResult one_instance) = Inr (paint_reply 5)"
proof -
  have "inst_get ''a'' one_instance \<noteq> None"
      "fst (try_send (list_try_send 1) ''a'' (shutdown_request 5) one_instance) = Inr ()"
    by (simp_all add: one_instance_def inst_get_def imap_insert_def imap_new_def try_send_def
        list_try_send_def Let_def)
  moreover have "corr (paint_reply 5) = 5" "waiter_matches WaitUiResult (paint_reply 5)"
    by (simp_all add: paint_reply_def waiter_matches_def)
  moreover have "gap (answering ''b'' (paint_reply 5) :: server_to_sim list sched) = (\<lambda>m. m)" by (simp add: answering_def)
  moreover have "meanwhile (list_try_send 1) (answering ''b'' (paint_reply 5)) ''a'' 5 WaitUiResult 2000
      (\<lambda>n n'. n' = push_inbound ''b'' (paint_reply 5) n)"
    by (rule answering_meanwhile) (simp_all add: paint_reply_def waiter_matches_def)
  ultimately show ?thesis
    using waiting_call_learns_its_fate [where msg = "shutdown_request 5" and ts = "list_try_send 1"
        and kind = WaitUiResult and iid = "''a''" and timeout = 2000 and j = "''b''"
        and reply = "paint_reply 5" and sc = "answering ''b'' (paint_reply 5)", OF answering_ok one_instance_wf]
    by simp
qed



text \<open>C15. When the session that owns an instance ends, every call waiting on that instance is
  told (its sender is dropped, its waiter forgotten), and no call waiting on another instance is
  affected.\<close>

theorem disconnect_fails_exactly_its_waiters:
  assumes "waiters_wf m" and "owns i tok m" and "hm_get (im_waiters m) c = Some (k, tx)"
  shows "if hm_get (im_waiter_instance m) c = Some i
    then im_tx_fate (remove_if i tok m) tx = TxDropped \<and>
      hm_get (im_waiters (remove_if i tok m)) c = None
    else im_tx_fate (remove_if i tok m) tx = TxOpen \<and>
      hm_get (im_waiters (remove_if i tok m)) c = Some (k, tx)"
proof -
  let ?m = "m\<lparr>im_inner := hm_remove i (im_inner m)\<rparr>"
  have wf: "waiters_wf ?m" using assms(1) by (simp add: waiters_wf_def)
  have only: "hm_get (im_waiters m) c' = Some (k', tx) \<longleftrightarrow> c' = c \<and> k' = k" for c' k'
  proof
    assume h: "hm_get (im_waiters m) c' = Some (k', tx)"
    with rr.wf_inj [OF assms(1,3) h] assms(3) show "c' = c \<and> k' = k" by simp
  qed (simp add: assms(3))
  have "im_tx_fate m tx = TxOpen" using rr.wf_open [OF assms(1,3)] by simp
  then have "im_tx_fate (remove_if i tok m) tx =
      (if hm_get (im_waiter_instance m) c = Some i then TxDropped else TxOpen)"
    by (simp add: remove_if_def assms(2) fail_waiters_fate [OF wf] only)
  moreover have "hm_get (im_waiters (remove_if i tok m)) c =
      (if hm_get (im_waiter_instance m) c = Some i then None else Some (k, tx))"
    by (simp add: remove_if_def assms(2,3) fail_waiters_get [OF wf])
  ultimately show ?thesis by simp
qed

definition waiting_instance :: "server_to_sim list imap" where
  "waiting_instance = snd (register_waiter ''a'' 5 WaitUiResult one_instance)"

lemma waiting_instance_wf: "waiters_wf waiting_instance"
  unfolding waiting_instance_def by (intro wf_intros one_instance_wf)

lemma waiting_instance_props:
  "owns ''a'' 1 waiting_instance"
  "hm_get (im_waiters waiting_instance) 5 = Some (WaitUiResult, 0)"
  "hm_get (im_waiter_instance waiting_instance) 5 = Some ''a''"
  by (simp_all add: waiting_instance_def register_waiter_def one_instance_def imap_insert_def
      imap_new_def owns_def Let_def)

theorem disconnect_fails_exactly_its_waiters_witness:
  "im_tx_fate (remove_if ''a'' 1 waiting_instance) 0 = TxDropped"
  using disconnect_fails_exactly_its_waiters [OF waiting_instance_wf waiting_instance_props(1,2)]
  by (simp add: waiting_instance_props)

text \<open>C37. A waiter is completed by its correlation id alone: a matching message completes it
  whichever instance \<open>j\<close> sent it, even one that is not connected, and whether or not the
  session view of that instance hides the message.\<close>

theorem any_sender_completes_a_waiter:
  assumes "hm_get (im_waiters m) (corr reply) = Some (k, tx)"
    and "corr reply \<noteq> 0" and "waiter_matches k reply"
  shows "im_tx_fate (push_inbound j reply m) tx = TxSent reply \<and>
    hm_get (im_waiters (push_inbound j reply m)) (corr reply) = None"
  using complete_waiter_hit [OF assms(2,1,3)] push_inbound_waiters [of reply m j]
  by (simp add: same_waiters_def)

theorem any_sender_completes_a_waiter_witness:
  "hm_get (im_waiter_instance waiting_instance) 5 = Some ''a'' \<and>
   im_tx_fate (push_inbound ''b'' (paint_reply 5) waiting_instance) 0 = TxSent (paint_reply 5)"
proof -
  have "hm_get (im_waiters waiting_instance) (corr (paint_reply 5)) = Some (WaitUiResult, 0)"
    and "corr (paint_reply 5) \<noteq> 0" and "waiter_matches WaitUiResult (paint_reply 5)"
    by (simp_all add: waiting_instance_props paint_reply_def waiter_matches_def)
  from any_sender_completes_a_waiter [OF this, of "''b''"]
  show ?thesis by (simp add: waiting_instance_props)
qed

text \<open>A call that waits for a painted result goes on waiting through accepted
  acknowledgements and unrelated messages: any sequence of messages, from any instances, that
  holds no match for its correlation id and kind leaves it pending.\<close>

lemma unmatched_messages_leave_it_pending:
  assumes "waiters_wf m" and "hm_get (im_waiters m) c = Some (k, tx)"
    and "list_all (\<lambda>(j, msg). corr msg = c \<longrightarrow> \<not> waiter_matches k msg) msgs"
  shows "hm_get (im_waiters (fold (\<lambda>(j, msg). push_inbound j msg) msgs m)) c = Some (k, tx) \<and>
    im_tx_fate (fold (\<lambda>(j, msg). push_inbound j msg) msgs m) tx = TxOpen"
  using assms
proof (induction msgs arbitrary: m)
  case Nil
  then show ?case by (auto simp: waiters_wf_def)
next
  case (Cons p msgs)
  obtain j msg where p: "p = (j, msg)" by fastforce
  have "hm_get (im_waiters (push_inbound j msg m)) c = Some (k, tx)"
    using Cons.prems(2,3) push_inbound_waiters [of msg m j]
    by (auto simp: p same_waiters_def complete_waiter_def split: option.split)
  with Cons.IH [of "push_inbound j msg m"] Cons.prems show ?case
    by (simp add: p waiters_wf_push)
qed

definition accepted_ack :: "u64 \<Rightarrow> sim_to_server" where
  "accepted_ack c = envelope 1 c (InputAck \<lparr>ack_accepted = True, ack_reason = ''''\<rparr>)"

lemma unmatched_messages_leave_it_pending_witness:
  "im_tx_fate (push_inbound ''a'' (accepted_ack 5) waiting_instance) 0 = TxOpen"
  using unmatched_messages_leave_it_pending [OF waiting_instance_wf waiting_instance_props(2),
      of "[(''a'', accepted_ack 5)]"]
  by (simp add: accepted_ack_def waiter_matches_def)

end
