(* ===== verification/Registry.thy ===== *)
theory Registry
  imports Waiters
begin

text \<open>
  The invariant of the instance map and the ownership discipline of its entries.
  An entry belongs to the session whose token it carries; a session whose entry was
  replaced has lost every power over it. The locale \<open>token_registry\<close> is that contract,
  interpreted on \<open>insert\<close>, \<open>remove_if\<close> and \<open>set_heartbeat\<close> of the model.
\<close>

subsection \<open>The invariant\<close>

definition entry_wf :: "string \<Rightarrow> sim_instance \<Rightarrow> bool" where
  "entry_wf i inst \<longleftrightarrow>
     reg_instance_id (inst_register inst) = i \<and> is_valid_instance_id i \<and>
     iq_wf (inst_inbound inst)"

definition imap_wf :: "'ch imap \<Rightarrow> bool" where
  "imap_wf m \<longleftrightarrow>
     hm_wf (im_inner m) \<and> waiters_wf m \<and>
     (\<forall>i inst. hm_get (im_inner m) i = Some inst \<longrightarrow>
        entry_wf i inst \<and> inst_outbound_tx inst < im_next_chan m) \<and>
     (\<forall>i j a b. hm_get (im_inner m) i = Some a \<longrightarrow> hm_get (im_inner m) j = Some b \<longrightarrow>
        inst_outbound_tx a = inst_outbound_tx b \<longrightarrow> i = j) \<and>
     (\<forall>d. im_default_instance m = Some d \<longrightarrow> is_valid_instance_id d)"

definition same_identity :: "sim_instance \<Rightarrow> sim_instance \<Rightarrow> bool" where
  "same_identity a b \<longleftrightarrow>
     inst_token b = inst_token a \<and> inst_register b = inst_register a \<and>
     inst_outbound_tx b = inst_outbound_tx a \<and>
     (iq_wf (inst_inbound a) \<longrightarrow> iq_wf (inst_inbound b))"

lemma imap_wf_rewrite:
  assumes "imap_wf m"
    and "hm_wf (im_inner m) \<Longrightarrow> hm_wf (im_inner m')" and "waiters_wf m \<Longrightarrow> waiters_wf m'"
    and "im_default_instance m' = im_default_instance m" and "im_next_chan m \<le> im_next_chan m'"
    and old: "\<And>i b. hm_get (im_inner m') i = Some b \<Longrightarrow>
      \<exists>a. hm_get (im_inner m) i = Some a \<and> same_identity a b"
  shows "imap_wf m'"
  unfolding imap_wf_def
proof (intro conjI allI impI)
  fix i b assume b: "hm_get (im_inner m') i = Some b"
  with old obtain a where a: "hm_get (im_inner m) i = Some a" "same_identity a b" by blast
  with assms(1) have "entry_wf i a" "inst_outbound_tx a < im_next_chan m"
    by (auto simp: imap_wf_def)
  with a(2) assms(5) show "entry_wf i b" "inst_outbound_tx b < im_next_chan m'"
    by (auto simp: entry_wf_def same_identity_def)
  fix j c assume c: "hm_get (im_inner m') j = Some c" "inst_outbound_tx b = inst_outbound_tx c"
  with old obtain d where "hm_get (im_inner m) j = Some d" "same_identity d c" by blast
  with a c(2) assms(1) show "i = j" by (auto simp: imap_wf_def same_identity_def)
qed (use assms(1-4) in \<open>auto simp: imap_wf_def\<close>)

lemma imap_wfD:
  assumes "imap_wf m"
  shows "hm_wf (im_inner m)" and "waiters_wf m"
    and "hm_get (im_inner m) i = Some inst \<Longrightarrow> entry_wf i inst"
    and "hm_get (im_inner m) i = Some inst \<Longrightarrow> inst_outbound_tx inst < im_next_chan m"
  using assms by (simp_all add: imap_wf_def)

lemma same_identity_refl [simp]: "same_identity a a"
  by (simp add: same_identity_def)

lemma same_identity_updates [simp]:
  "same_identity a (a\<lparr>inst_last_heartbeat := hb\<rparr>)"
  "same_identity a (a\<lparr>inst_read_mask := ps\<rparr>)"
  "same_identity a (a\<lparr>inst_exclude_log_components := cs\<rparr>)"
  "same_identity a (a\<lparr>inst_inbound := iq_push msg (inst_inbound a)\<rparr>)"
  "same_identity a (a\<lparr>inst_inbound := snd (iq_try_recv (inst_inbound a))\<rparr>)"
  by (auto simp: same_identity_def intro: wf_intros)

lemma imap_wf_new [wf_intros]: "imap_wf (imap_new chans)"
  using waiters_wf_new by (simp add: imap_wf_def imap_new_def)

lemma imap_wf_insert [wf_intros]:
  assumes "imap_wf m" and "is_valid_instance_id (reg_instance_id reg)" and "n \<le> usize_max"
    and "tx < im_next_chan m" and "\<And>i a. hm_get (im_inner m) i = Some a \<Longrightarrow> inst_outbound_tx a \<noteq> tx"
  shows "imap_wf (snd (imap_insert reg n tx m))"
proof -
  have "waiters_wf (snd (imap_insert reg n tx m))"
    using assms(1) by (auto intro: waiters_wf_same frame_simps dest: imap_wfD)
  moreover have "hm_wf (im_inner (snd (imap_insert reg n tx m)))"
    using assms(1) by (auto simp: imap_insert_def Let_def intro: wf_intros dest: imap_wfD)
  moreover have "im_next_chan (snd (imap_insert reg n tx m)) = im_next_chan m"
    and "im_default_instance (snd (imap_insert reg n tx m)) = im_default_instance m"
    by (simp_all add: imap_insert_def Let_def)
  ultimately show ?thesis
    using assms unfolding imap_wf_def
    by (auto simp: imap_insert_inner entry_wf_def iq_wf_def iq_new_def split: if_splits)
qed

lemma hm_wf_inner_ops [wf_intros]:
  assumes "hm_wf (im_inner m)"
  shows "hm_wf (im_inner (set_heartbeat i tok hb m))" "hm_wf (im_inner (remove_if i tok m))"
    "hm_wf (im_inner (push_inbound i msg m))" "hm_wf (im_inner (snd (try_recv_inbound i m)))"
    "hm_wf (im_inner (set_read_mask i ps m))"
    "hm_wf (im_inner (set_exclude_log_components i ps m))"
  using assms
  by (auto simp: set_heartbeat_def remove_if_def push_inbound_def try_recv_inbound_def Let_def
      set_read_mask_def set_exclude_log_components_def frame_simps
      intro: wf_intros split: option.split prod.split)

lemma default_ops [frame_simps]:
  "im_default_instance (set_heartbeat i tok hb m) = im_default_instance m"
  "im_default_instance (remove_if i tok m) = im_default_instance m"
  "im_default_instance (push_inbound i msg m) = im_default_instance m"
  "im_default_instance (snd (try_recv_inbound i m)) = im_default_instance m"
  "im_default_instance (set_read_mask i ps m) = im_default_instance m"
  "im_default_instance (set_exclude_log_components i ps m) = im_default_instance m"
  "im_next_chan (set_heartbeat i tok hb m) = im_next_chan m"
  "im_next_chan (remove_if i tok m) = im_next_chan m"
  "im_next_chan (push_inbound i msg m) = im_next_chan m"
  "im_next_chan (snd (try_recv_inbound i m)) = im_next_chan m"
  "im_next_chan (set_read_mask i ps m) = im_next_chan m"
  "im_next_chan (set_exclude_log_components i ps m) = im_next_chan m"
  "im_next_token (set_heartbeat i tok hb m) = im_next_token m"
  "im_next_token (remove_if i tok m) = im_next_token m"
  "im_next_token (push_inbound i msg m) = im_next_token m"
  "im_next_token (snd (try_recv_inbound i m)) = im_next_token m"
  "im_next_token (set_read_mask i ps m) = im_next_token m"
  "im_next_token (set_exclude_log_components i ps m) = im_next_token m"
  "im_next_corr (set_heartbeat i tok hb m) = im_next_corr m"
  "im_next_corr (remove_if i tok m) = im_next_corr m"
  "im_next_corr (push_inbound i msg m) = im_next_corr m"
  "im_next_corr (snd (try_recv_inbound i m)) = im_next_corr m"
  "im_next_corr (set_read_mask i ps m) = im_next_corr m"
  "im_next_corr (set_exclude_log_components i ps m) = im_next_corr m"
  by (auto simp: set_heartbeat_def remove_if_def push_inbound_def try_recv_inbound_def Let_def
      set_read_mask_def set_exclude_log_components_def frame_simps split: option.split prod.split)

lemma imap_wf_heartbeat [wf_intros]: "imap_wf m \<Longrightarrow> imap_wf (set_heartbeat i tok hb m)"
  by (erule imap_wf_rewrite)
    (auto simp: inner_lookups frame_simps intro: wf_intros
      split: if_splits)

lemma imap_wf_remove_if [wf_intros]: "imap_wf m \<Longrightarrow> imap_wf (remove_if i tok m)"
  by (erule imap_wf_rewrite)
    (auto simp: inner_lookups frame_simps intro: wf_intros split: if_splits)

lemma drop_entry_frame [frame_simps]:
  "im_default_instance (drop_entry i m) = im_default_instance m"
  "im_next_token (drop_entry i m) = im_next_token m"
  "im_next_corr (drop_entry i m) = im_next_corr m"
  "im_next_chan (drop_entry i m) = im_next_chan m"
  "hm_get (im_inner (drop_entry i m)) j = (if j = i then None else hm_get (im_inner m) j)"
  by (simp_all add: drop_entry_def)

lemma queue_inbound_frame [frame_simps]:
  "im_default_instance (queue_inbound i msg m) = im_default_instance m"
  "im_next_token (queue_inbound i msg m) = im_next_token m"
  "im_next_corr (queue_inbound i msg m) = im_next_corr m"
  "im_next_chan (queue_inbound i msg m) = im_next_chan m"
  by (auto simp: queue_inbound_def split: option.split)

lemma queue_inbound_inner:
  "hm_get (im_inner (queue_inbound i msg m)) j =
     (if j = i
      then map_option (\<lambda>inst.
             if inbound_visible (inst_read_mask inst) msg \<and>
                \<not> excluded_log (inst_exclude_log_components inst) msg
             then inst\<lparr>inst_inbound := iq_push msg (inst_inbound inst)\<rparr> else inst)
             (hm_get (im_inner m) i)
      else hm_get (im_inner m) j)"
  by (auto simp: queue_inbound_def split: option.split)

lemma hm_wf_queue_inbound [wf_intros]: "hm_wf (im_inner m) \<Longrightarrow> hm_wf (im_inner (queue_inbound i msg m))"
  by (auto simp: queue_inbound_def intro: wf_intros split: option.split)

lemma imap_wf_halves [wf_intros]:
  assumes "imap_wf m"
  shows "imap_wf (drop_entry i m)" and "imap_wf (fail_waiters i m)"
    and "imap_wf (complete_waiter msg m)" and "imap_wf (queue_inbound i msg m)"
proof -
  show "imap_wf (complete_waiter msg m)"
    by (rule imap_wf_rewrite [OF assms]) (auto simp: frame_simps intro: wf_intros)
  show "imap_wf (queue_inbound i msg m)"
    by (rule imap_wf_rewrite [OF assms])
      (auto simp: queue_inbound_inner frame_simps intro: wf_intros split: if_splits)
  show "imap_wf (drop_entry i m)"
    by (rule imap_wf_rewrite [OF assms])
      (auto simp: frame_simps drop_entry_def intro: wf_intros waiters_wf_drop_entry [unfolded drop_entry_def]
        split: if_splits)
  show "imap_wf (fail_waiters i m)"
    by (rule imap_wf_rewrite [OF assms]) (auto simp: frame_simps intro: wf_intros)
qed

lemma imap_wf_push [wf_intros]: "imap_wf m \<Longrightarrow> imap_wf (push_inbound i msg m)"
  by (erule imap_wf_rewrite)
    (auto simp: inner_lookups frame_simps intro: wf_intros split: if_splits)

lemma imap_wf_recv [wf_intros]: "imap_wf m \<Longrightarrow> imap_wf (snd (try_recv_inbound i m))"
  by (erule imap_wf_rewrite)
    (auto simp: inner_lookups frame_simps intro: wf_intros
      split: if_splits)

lemma imap_wf_read_mask [wf_intros]: "imap_wf m \<Longrightarrow> imap_wf (set_read_mask i ps m)"
  by (erule imap_wf_rewrite)
    (auto simp: inner_lookups frame_simps intro: wf_intros
      split: if_splits)

lemma imap_wf_exclude [wf_intros]: "imap_wf m \<Longrightarrow> imap_wf (set_exclude_log_components i ps m)"
  by (erule imap_wf_rewrite)
    (auto simp: inner_lookups frame_simps intro: wf_intros
      split: if_splits)

lemma imap_wf_try_send [wf_intros]: "imap_wf m \<Longrightarrow> imap_wf (snd (try_send ts i msg m))"
  by (erule imap_wf_rewrite)
    (auto simp: frame_simps intro: wf_intros)

lemma imap_wf_next_corr [wf_intros]: "imap_wf m \<Longrightarrow> imap_wf (snd (next_corr m))"
  by (erule imap_wf_rewrite)
    (auto simp: frame_simps intro: wf_intros)

lemma imap_wf_register [wf_intros]:
  "imap_wf m \<Longrightarrow> imap_wf (snd (register_waiter i c k m))"
  by (erule imap_wf_rewrite) (auto simp: frame_simps intro: wf_intros)

lemma imap_wf_take [wf_intros]: "imap_wf m \<Longrightarrow> imap_wf (take_waiter c m)"
  by (erule imap_wf_rewrite) (auto simp: frame_simps intro: wf_intros)

lemma imap_wf_default [wf_intros]: "imap_wf m \<Longrightarrow> imap_wf (set_default_instance d m)"
  by (auto simp: imap_wf_def set_default_instance_def same_waiters_def
      elim!: waiters_wf_same [rotated] split: option.split if_splits)

subsection \<open>The ownership contract\<close>

locale token_registry =
  fixes wf :: "'s \<Rightarrow> bool"
    and room :: "'s \<Rightarrow> bool"
    and issued :: "'s \<Rightarrow> u64 set"
    and owner :: "'s \<Rightarrow> string \<Rightarrow> u64 option"
    and key :: "'r \<Rightarrow> string"
    and enter :: "'r \<Rightarrow> 's \<Rightarrow> u64 \<times> 's"
    and leave :: "string \<Rightarrow> u64 \<Rightarrow> 's \<Rightarrow> 's"
    and beat :: "string \<Rightarrow> u64 \<Rightarrow> heartbeat \<Rightarrow> 's \<Rightarrow> 's"
  assumes owner_issued: "wf s \<Longrightarrow> owner s i = Some t \<Longrightarrow> t \<in> issued s"
    and enter_fresh: "fst (enter r s) \<notin> issued s"
    and enter_issued: "room s \<Longrightarrow> issued (snd (enter r s)) = insert (fst (enter r s)) (issued s)"
    and enter_owner: "owner (snd (enter r s)) = (owner s)(key r \<mapsto> fst (enter r s))"
    and enter_wf: "wf s \<Longrightarrow> room s \<Longrightarrow> wf (snd (enter r s))"
    and leave_issued: "issued (leave i t s) = issued s"
    and leave_owner: "owner (leave i t s) = (if owner s i = Some t then (owner s)(i := None) else owner s)"
    and leave_stale: "owner s i \<noteq> Some t \<Longrightarrow> leave i t s = s"
    and beat_issued: "issued (beat i t hb s) = issued s"
    and beat_owner: "owner (beat i t hb s) = owner s"
    and beat_stale: "owner s i \<noteq> Some t \<Longrightarrow> beat i t hb s = s"
begin

text \<open>A token that was issued and owns nothing stays that way.\<close>

definition retired :: "string \<Rightarrow> u64 \<Rightarrow> 's \<Rightarrow> bool" where
  "retired i t s \<longleftrightarrow> t \<in> issued s \<and> owner s i \<noteq> Some t"

lemma superseded: "wf s \<Longrightarrow> room s \<Longrightarrow> owner s i = Some t \<Longrightarrow> key r = i \<Longrightarrow>
    retired i t (snd (enter r s))"
  using enter_fresh [of r s] owner_issued [of s i t]
  by (auto simp: retired_def enter_issued enter_owner)

lemma retired_enter: "room s \<Longrightarrow> retired i t s \<Longrightarrow> retired i t (snd (enter r s))"
  using enter_fresh [of r s] by (auto simp: retired_def enter_issued enter_owner)

lemma retired_leave: "retired i t s \<Longrightarrow> retired i t (leave j u s)"
  by (auto simp: retired_def leave_issued leave_owner)

lemma retired_beat: "retired i t s \<Longrightarrow> retired i t (beat j u hb s)"
  by (simp add: retired_def beat_issued beat_owner)

lemma retired_inert: "retired i t s \<Longrightarrow> leave i t s = s \<and> beat i t hb s = s"
  by (simp add: retired_def leave_stale beat_stale)

end

definition owner_of :: "'ch imap \<Rightarrow> string \<Rightarrow> u64 option" where
  "owner_of m i = map_option inst_token (hm_get (im_inner m) i)"

definition tokens_wf :: "'ch imap \<Rightarrow> bool" where
  "tokens_wf m \<longleftrightarrow> (\<forall>i t. owner_of m i = Some t \<longrightarrow> t < im_next_token m)"

definition token_room :: "'ch imap \<Rightarrow> bool" where
  "token_room m \<longleftrightarrow> im_next_token m \<noteq> - 1"

definition insert_session :: "register \<times> nat \<times> nat \<Rightarrow> 'ch imap \<Rightarrow> u64 \<times> 'ch imap" where
  "insert_session r m = (case r of (reg, n, tx) \<Rightarrow> imap_insert reg n tx m)"

lemma owns_owner_of: "owns i t m \<longleftrightarrow> owner_of m i = Some t"
  by (auto simp: owns_iff owner_of_def)

lemma owner_of_ops [simp]:
  "owner_of (snd (imap_insert reg n tx m)) = (owner_of m)(reg_instance_id reg \<mapsto> im_next_token m)"
  "owner_of (set_heartbeat i t hb m) = owner_of m"
  "owner_of (remove_if i t m) =
     (if owner_of m i = Some t then (owner_of m)(i := None) else owner_of m)"
  "owner_of (push_inbound i msg m) = owner_of m"
  "owner_of (snd (try_recv_inbound i m)) = owner_of m"
  "owner_of (set_read_mask i ps m) = owner_of m"
  "owner_of (set_exclude_log_components i ps m) = owner_of m"
  by (auto simp: fun_eq_iff owner_of_def inner_lookups owns_iff option.map_comp comp_def
      if_distrib [of inst_token] cong: if_cong split: option.split)

lemma owner_of_halves [simp]:
  "owner_of (drop_entry i m) = (owner_of m)(i := None)"
  "owner_of (fail_waiters i m) = owner_of m"
  "owner_of (complete_waiter msg m) = owner_of m"
  "owner_of (queue_inbound i msg m) = owner_of m"
  by (auto simp: fun_eq_iff owner_of_def frame_simps queue_inbound_inner option.map_comp comp_def
      if_distrib [of inst_token] cong: if_cong)

lemma remove_if_stale: "owner_of m i \<noteq> Some t \<Longrightarrow> remove_if i t m = m"
  by (simp add: remove_if_def owns_owner_of)

lemma set_heartbeat_stale: "owner_of m i \<noteq> Some t \<Longrightarrow> set_heartbeat i t hb m = m"
  by (auto simp: set_heartbeat_def owner_of_def split: option.split)

lemma imap_insert_next_token [simp]:
  "im_next_token (snd (imap_insert reg n tx m)) = im_next_token m + 1"
  by (simp add: imap_insert_def Let_def)

lemma tokens_below_succ:
  fixes n :: u64
  assumes "n \<noteq> - 1"
  shows "{t. t < n + 1} = insert n {t. t < n}"
proof -
  have "unat (n + 1) = Suc (unat n)"
    using assms unatSuc [of n] by (simp add: add.commute add_eq_0_iff)
  then show ?thesis by (auto simp: word_less_nat_alt less_Suc_eq word_unat_eq_iff)
qed

interpretation tr: token_registry tokens_wf token_room "\<lambda>m. {t. t < im_next_token m}" owner_of
    "\<lambda>(reg, n, tx). reg_instance_id reg" insert_session remove_if set_heartbeat
  by unfold_locales
    (auto simp: tokens_wf_def token_room_def insert_session_def tokens_below_succ frame_simps
      remove_if_stale set_heartbeat_stale word_less_succ word_self_less_succ
      split: prod.splits if_splits)

subsection \<open>Properties\<close>

text \<open>A step of any session on the map: one registers, one is removed, one reports a
  heartbeat.\<close>

datatype session_op = OpInsert register nat nat | OpRemove string u64 | OpBeat string u64 heartbeat

fun run_session_op :: "session_op \<Rightarrow> 'ch imap \<Rightarrow> 'ch imap" where
  "run_session_op (OpInsert reg n tx) m = snd (imap_insert reg n tx m)"
| "run_session_op (OpRemove i t) m = remove_if i t m"
| "run_session_op (OpBeat i t hb) m = set_heartbeat i t hb m"

lemma token_room_bound:
  assumes "unat (im_next_token m) + 1 < 2 ^ 64"
  shows "token_room m"
proof -
  have "unat (- 1 :: u64) = 2 ^ 64 - 1" by (simp add: unsigned_minus_1_eq_mask mask_eq_exp_minus_1)
  with assms show ?thesis by (auto simp: token_room_def)
qed

lemma run_session_op_retired:
  assumes "tr.retired i t m" and "token_room m"
  shows "tr.retired i t (run_session_op op m)"
  using assms
proof (cases op)
  case (OpInsert reg n tx)
  with tr.retired_enter [OF assms(2,1), of "(reg, n, tx)"] show ?thesis
    by (simp add: insert_session_def)
qed (simp_all add: tr.retired_leave tr.retired_beat)

lemma run_session_op_next_token:
  "unat (im_next_token (run_session_op op m)) \<le> Suc (unat (im_next_token m))"
  by (cases op) (simp_all add: frame_simps unat_plus_if' le_Suc_eq)

lemma run_session_ops_retired:
  assumes "tr.retired i t m" and "unat (im_next_token m) + length ops < 2 ^ 64"
  shows "tr.retired i t (fold run_session_op ops m)"
  using assms
proof (induction ops arbitrary: m)
  case (Cons op ops)
  have room: "token_room m"
    using Cons.prems(2) by (intro token_room_bound) simp
  from Cons.prems(2) run_session_op_next_token [of op m]
  have "unat (im_next_token (run_session_op op m)) + length ops < 2 ^ 64" by simp
  with Cons.IH [OF run_session_op_retired [OF Cons.prems(1) room]] show ?case by simp
qed simp

text \<open>C16. A replaced session is powerless for good: once another stream has registered its id,
  then after any further registrations, removals and heartbeats of any sessions (short of the
  token counter wrapping) it neither owns the id, nor can its end remove the instance, nor its
  heartbeat change the record.\<close>

theorem replaced_session_is_inert:
  assumes "tokens_wf m" and "owns i t m" and "reg_instance_id reg = i"
    and "unat (im_next_token m) + length ops + 1 < 2 ^ 64"
  shows "let m' = fold run_session_op ops (snd (imap_insert reg n tx m))
    in \<not> owns i t m' \<and> remove_if i t m' = m' \<and> set_heartbeat i t hb m' = m'"
proof -
  have room: "token_room m"
    using assms(4) by (intro token_room_bound) simp
  have "tr.retired i t (snd (imap_insert reg n tx m))"
    using tr.superseded [OF assms(1) room, of i t "(reg, n, tx)"] assms(2,3)
    by (simp add: owns_owner_of insert_session_def)
  moreover have "unat (im_next_token (snd (imap_insert reg n tx m))) + length ops < 2 ^ 64"
    using run_session_op_next_token [of "OpInsert reg n tx" m] assms(4) by simp
  ultimately have "tr.retired i t (fold run_session_op ops (snd (imap_insert reg n tx m)))"
    by (rule run_session_ops_retired)
  with tr.retired_inert [OF this] show ?thesis
    by (simp add: Let_def owns_owner_of tr.retired_def)
qed

lemma one_instance_tokens: "tokens_wf one_instance" "owns ''a'' 1 one_instance"
    "im_next_token one_instance = 2" "hm_get (im_inner one_instance) ''b'' = None"
  by (auto simp: tokens_wf_def owner_of_def owns_owner_of one_instance_def imap_insert_inner
      imap_new_def split: if_splits)

theorem replaced_session_is_inert_witness:
  "let m' = fold run_session_op [OpRemove ''a'' 2] (snd (imap_insert (sample_register ''a'') 4 1 one_instance))
   in \<not> owns ''a'' 1 m' \<and> remove_if ''a'' 1 m' = m' \<and>
     set_heartbeat ''a'' 1 (sample_heartbeat 3) m' = m'"
  by (rule replaced_session_is_inert [OF one_instance_tokens(1,2)])
    (simp_all add: one_instance_tokens)

text \<open>C26. An instance is never guessed: a tool call reaches the instance it names, or the process
  default when it names none, and only if that one is connected; an empty or over-long name, and
  no name with no default, are rejected however many simulators are connected.\<close>

theorem resolve_never_guesses:
  assumes "imap_wf m"
  shows "(resolve_or_default sel m = Inr s \<longleftrightarrow>
      (\<exists>i. (sel = Some i \<or> sel = None \<and> default_instance m = Some i) \<and>
         is_valid_instance_id i \<and> inst_get i m = Some s \<and>
         reg_instance_id (snap_register s) = i)) \<and>
    (resolve_or_default sel m = Inl EmptyId \<longleftrightarrow>
      (case sel of Some i \<Rightarrow> i = [] \<or> INSTANCE_ID_MAX_LEN < length i
                 | None \<Rightarrow> default_instance m = None))"
proof -
  have own: "inst_get i m = Some s \<Longrightarrow> reg_instance_id (snap_register s) = i" for i
    using imap_wfD(3) [OF assms] by (auto simp: inst_get_def snapshot_of_def entry_wf_def)
  have valid: "default_instance m = Some d \<Longrightarrow> is_valid_instance_id d" for d
    using assms by (simp add: default_instance_def imap_wf_def)
  have found: "resolve i m = Inr s \<longleftrightarrow>
      is_valid_instance_id i \<and> inst_get i m = Some s \<and> reg_instance_id (snap_register s) = i" for i
    using own [of i] by (auto simp: resolve_def split: option.split)
  have refused: "resolve i m = Inl EmptyId \<longleftrightarrow> i = [] \<or> INSTANCE_ID_MAX_LEN < length i" for i
    by (auto simp: resolve_def is_valid_instance_id_def split: option.split)
  show ?thesis
  proof (cases sel)
    case None
    show ?thesis
    proof (cases "default_instance m")
      case (Some d)
      with None refused [of d] valid [of d] show ?thesis
        by (simp add: resolve_or_default_def found is_valid_instance_id_def)
    qed (simp add: None resolve_or_default_def)
  next
    case (Some i)
    then show ?thesis by (simp add: resolve_or_default_def found refused)
  qed
qed

definition lone_instance :: "server_to_sim list imap" where
  "lone_instance =
     snd (imap_insert (sample_register ''a'') 4 0 (imap_new (\<lambda>_. [])\<lparr>im_next_chan := 1\<rparr>))"

definition lone_snapshot :: instance_snapshot where
  "lone_snapshot =
     \<lparr>snap_token = 1, snap_register = sample_register ''a'', snap_last_heartbeat = None\<rparr>"

lemma lone_instance_wf: "imap_wf lone_instance"
  unfolding lone_instance_def
  by (rule imap_wf_insert)
    (simp_all add: is_valid_instance_id_def INSTANCE_ID_MAX_LEN_def usize_max_def imap_wf_def
      imap_new_def waiters_wf_def)

lemma lone_instance_lookups:
  "inst_get ''a'' lone_instance = Some lone_snapshot" "default_instance lone_instance = None"
  by (simp_all add: lone_instance_def lone_snapshot_def inst_get_def imap_insert_inner
      snapshot_of_def default_instance_def imap_new_def imap_insert_def Let_def)

theorem resolve_never_guesses_witness:
  "resolve_or_default (Some ''a'') lone_instance = Inr lone_snapshot \<and>
   resolve_or_default None lone_instance = Inl EmptyId"
proof
  show "resolve_or_default (Some ''a'') lone_instance = Inr lone_snapshot"
    using resolve_never_guesses [OF lone_instance_wf, of "Some ''a''" lone_snapshot]
    by (simp add: lone_instance_lookups lone_snapshot_def is_valid_instance_id_def
        INSTANCE_ID_MAX_LEN_def)
  show "resolve_or_default None lone_instance = Inl EmptyId"
    using resolve_never_guesses [OF lone_instance_wf, of None lone_snapshot]
    by (simp add: lone_instance_lookups)
qed

text \<open>What arrives is queued exactly where it belongs: an inbound message is pushed on the
  queue of the instance it came for when its payload is in the session view and its log component
  is not excluded, and is left out otherwise; no other instance changes, and the identity and
  settings of the instance itself do not change.\<close>

lemma push_inbound_delivers:
  assumes "hm_get (im_inner m) i = Some inst"
  shows "hm_get (im_inner (push_inbound i msg m)) j =
    (if j \<noteq> i then hm_get (im_inner m) j
     else Some (inst\<lparr>inst_inbound :=
       (if inst_read_mask inst \<noteq> [] \<and>
           (case inbound_payload_name msg of
              None \<Rightarrow> True | Some name \<Rightarrow> name \<notin> set (inst_read_mask inst))
        then inst_inbound inst
        else case payload msg of
               Some (Log log) \<Rightarrow>
                 if log_component log \<in> set (inst_exclude_log_components inst)
                 then inst_inbound inst else iq_push msg (inst_inbound inst)
             | _ \<Rightarrow> iq_push msg (inst_inbound inst))\<rparr>))"
  using assms
  by (auto simp: push_inbound_inner inbound_visible_iff excluded_log_def list_ex_iff
      split: option.splits sim_payload.splits)

lemma push_inbound_delivers_witness:
  "hm_get (im_inner (push_inbound ''a'' (envelope 1 0 (Heartbeat (sample_heartbeat 1)))
      (set_read_mask ''a'' [''log''] one_instance))) ''a''
   = hm_get (im_inner (set_read_mask ''a'' [''log''] one_instance)) ''a''"
proof -
  obtain inst where "hm_get (im_inner (set_read_mask ''a'' [''log''] one_instance)) ''a'' = Some inst"
      and "inst_read_mask inst = [''log'']"
    by (auto simp: one_instance_def inner_lookups)
  from push_inbound_delivers [OF this(1), of "envelope 1 0 (Heartbeat (sample_heartbeat 1))" "''a''"] this
  show ?thesis by (simp add: inbound_payload_name_def)
qed

end
