(* ===== verification/Session.thy ===== *)
theory Session
  imports Registry
begin

text \<open>
  The inbound \<open>Session\<close> stream (\<open>crates/csm-proxy/src/session.rs\<close>): its first message
  registers an instance, every later one is recorded or queued, its end removes the
  instance. The stream is the list of what \<open>requests.next()\<close> yields; the whole of the
  process is the step relation \<open>sys_step\<close>, in which any number of sessions and tool calls
  interleave.

  A session takes the map's lock anew for every operation. The parameter \<open>g\<close> of
  \<open>session_item\<close> is what the other tasks did between two of these acquisitions; \<open>sys_step\<close> has a
  session's turn as one step and each of its operations as a step (\<open>ss_push\<close>, \<open>ss_beat\<close>, and
  \<open>ss_entry\<close> and \<open>ss_fail\<close> for the two halves of \<open>remove_if\<close>), so every interleaving is covered.
\<close>

datatype stream_item = Item sim_to_server | ItemError

datatype connect_error = InboundFailed | InvalidArgument string

definition mpsc_channel :: "'ch \<Rightarrow> 'ch imap \<Rightarrow> nat \<times> 'ch imap" where
  "mpsc_channel chan0 m =
     (im_next_chan m,
      m\<lparr>im_next_chan := Suc (im_next_chan m),
        im_outq := (im_outq m)(im_next_chan m := chan0)\<rparr>)"

definition no_messages_text :: string where
  "no_messages_text = ''session opened with no messages''"

definition not_register_text :: string where
  "not_register_text = ''first session message must be Register''"

definition bad_instance_id_text :: string where
  "bad_instance_id_text = ''instance_id must be 1-64 bytes''"

definition session_open ::
    "(nat \<Rightarrow> 'ch) \<Rightarrow> stream_item option \<Rightarrow> 'ch imap \<Rightarrow>
     (connect_error + string \<times> u64 \<times> nat) \<times> 'ch imap" where
  "session_open mk first m =
     (case first of
        Some (Item msg) \<Rightarrow>
          (case payload msg of
             Some (Register reg) \<Rightarrow>
               if \<not> is_valid_instance_id (reg_instance_id reg)
               then (Inl (InvalidArgument bad_instance_id_text), m)
               else
                 (let (tx, m1) = mpsc_channel (mk QUEUE_CAPACITY) m;
                      (token, m2) = imap_insert reg QUEUE_CAPACITY tx m1
                  in (Inr (reg_instance_id reg, token, tx), m2))
           | _ \<Rightarrow> (Inl (InvalidArgument not_register_text), m))
      | Some ItemError \<Rightarrow> (Inl InboundFailed, m)
      | None \<Rightarrow> (Inl (InvalidArgument no_messages_text), m))"

text \<open>One turn of the read loop; the flag says whether the loop goes on.\<close>

definition session_item ::
    "('ch imap \<Rightarrow> 'ch imap) \<Rightarrow> string \<Rightarrow> u64 \<Rightarrow> stream_item \<Rightarrow> 'ch imap \<Rightarrow> bool \<times> 'ch imap" where
  "session_item g iid token item m =
     (if \<not> owns iid token m then (False, m)
      else case item of
        ItemError \<Rightarrow> (False, m)
      | Item msg \<Rightarrow>
          (case payload msg of
             Some (Heartbeat hb) \<Rightarrow>
               (True, push_inbound iid msg (g (set_heartbeat iid token hb (g m))))
           | Some (Goodbye _) \<Rightarrow>
               (False, remove_if iid token (g (push_inbound iid msg (g m))))
           | _ \<Rightarrow> (True, push_inbound iid msg (g m))))"

fun session_loop ::
    "('ch imap \<Rightarrow> 'ch imap) \<Rightarrow> string \<Rightarrow> u64 \<Rightarrow> stream_item list \<Rightarrow> 'ch imap \<Rightarrow> 'ch imap" where
  "session_loop g iid token [] m = remove_if iid token m"
| "session_loop g iid token (item # items) m =
     (case session_item g iid token item m of
        (True, m') \<Rightarrow> session_loop g iid token items (g m')
      | (False, m') \<Rightarrow> remove_if iid token (g m'))"

text \<open>The outbound half: the stream yields what \<open>rx.recv()\<close> returns, until it returns none.
  \<open>rv\<close> is that receive on the contents of the channel, a parameter like \<open>try_send\<close>.\<close>

definition outbound_next ::
    "('ch \<Rightarrow> (server_to_sim \<times> 'ch) option) \<Rightarrow> nat \<Rightarrow> 'ch imap \<Rightarrow> server_to_sim option \<times> 'ch imap"
  where
  "outbound_next rv rx m =
     (case rv (im_outq m rx) of
        None \<Rightarrow> (None, m)
      | Some (msg, ch) \<Rightarrow> (Some msg, m\<lparr>im_outq := (im_outq m)(rx := ch)\<rparr>))"

subsection \<open>Single sessions\<close>

lemma mpsc_channel_frame [frame_simps]:
  "im_inner (snd (mpsc_channel e m)) = im_inner m"
  "im_next_token (snd (mpsc_channel e m)) = im_next_token m"
  "im_next_corr (snd (mpsc_channel e m)) = im_next_corr m"
  "im_default_instance (snd (mpsc_channel e m)) = im_default_instance m"
  "fst (mpsc_channel e m) = im_next_chan m"
  "im_next_chan (snd (mpsc_channel e m)) = Suc (im_next_chan m)"
  by (simp_all add: mpsc_channel_def)

lemma mpsc_channel_eq:
  "snd (mpsc_channel e m) =
     m\<lparr>im_outq := (im_outq m)(im_next_chan m := e), im_next_chan := Suc (im_next_chan m)\<rparr>"
  by (simp add: mpsc_channel_def)

lemma imap_wf_mpsc_channel [wf_intros]: "imap_wf m \<Longrightarrow> imap_wf (snd (mpsc_channel e m))"
  by (erule imap_wf_rewrite)
    (auto simp: frame_simps mpsc_channel_eq intro: waiters_wf_channels)

lemma session_open_cases:
  assumes "session_open mk first m = (r, m')"
  obtains (refused) e where "r = Inl e" "m' = m"
      "\<nexists>msg reg. first = Some (Item msg) \<and> payload msg = Some (Register reg) \<and>
         is_valid_instance_id (reg_instance_id reg)"
  | (opened) msg reg where "first = Some (Item msg)" "payload msg = Some (Register reg)"
      "is_valid_instance_id (reg_instance_id reg)"
      "r = Inr (reg_instance_id reg, im_next_token m, im_next_chan m)"
      "m' = snd (imap_insert reg QUEUE_CAPACITY (im_next_chan m)
                   (snd (mpsc_channel (mk QUEUE_CAPACITY) m)))"
proof (cases "\<exists>msg reg. first = Some (Item msg) \<and> payload msg = Some (Register reg) \<and>
    is_valid_instance_id (reg_instance_id reg)")
  case True
  then obtain msg reg where f: "first = Some (Item msg)" "payload msg = Some (Register reg)"
      "is_valid_instance_id (reg_instance_id reg)" by blast
  have "session_open mk first m =
      (Inr (reg_instance_id reg, im_next_token m, im_next_chan m),
       snd (imap_insert reg QUEUE_CAPACITY (im_next_chan m) (snd (mpsc_channel (mk QUEUE_CAPACITY) m))))"
    using f by (simp add: session_open_def mpsc_channel_def imap_insert_def Let_def)
  with assms f opened show ?thesis by auto
next
  case False
  then have "\<exists>e. session_open mk first m = (Inl e, m)"
    by (auto simp: session_open_def split: option.split stream_item.split sim_payload.split)
  with assms refused False show ?thesis by auto
qed

lemma imap_wf_open:
  assumes "imap_wf m" and "session_open mk first m = (r, m')"
  shows "imap_wf m'"
  using assms(2)
proof (cases rule: session_open_cases)
  case (opened msg reg)
  have "inst_outbound_tx a \<noteq> im_next_chan m" if "hm_get (im_inner m) i = Some a" for i a
    using imap_wfD(4) [OF assms(1) that] by simp
  with opened assms(1) show ?thesis
    by (auto intro!: wf_intros simp: frame_simps QUEUE_CAPACITY_def usize_max_def)
qed (use assms in simp)

lemma session_item_stale: "\<not> owns iid token m \<Longrightarrow> session_item g iid token item m = (False, m)"
  by (simp add: session_item_def)

lemma session_loop_released: "\<not> owns iid token (session_loop g iid token items m)"
proof (induction items arbitrary: m)
  case (Cons item items)
  show ?case
    by (auto simp: Cons.IH owns_owner_of [symmetric] split: prod.split bool.split)
      (simp add: owns_owner_of split: if_splits)
qed (simp add: owns_owner_of)

subsection \<open>The process: interleaved sessions and tool calls\<close>

text \<open>What a tool call does to the map, one operation at a time.\<close>

inductive tool_op :: "'ch try_send_fn \<Rightarrow> 'ch imap \<Rightarrow> 'ch imap \<Rightarrow> bool" for ts where
  to_next_corr: "tool_op ts m (snd (next_corr m))"
| to_try_send: "tool_op ts m (snd (try_send ts i msg m))"
| to_read_mask: "tool_op ts m (set_read_mask i paths m)"
| to_exclude: "tool_op ts m (set_exclude_log_components i comps m)"
| to_recv: "tool_op ts m (snd (try_recv_inbound i m))"
| to_register: "tool_op ts m (snd (register_waiter i c k m))"
| to_take: "tool_op ts m (take_waiter c m)"
| to_default: "tool_op ts m (set_default_instance d m)"

record 'ch sys =
  sys_map :: "'ch imap"
  sys_running :: "(string \<times> u64) set"

definition sys_init :: "(nat \<Rightarrow> 'ch) \<Rightarrow> 'ch sys" where
  "sys_init chans = \<lparr>sys_map = imap_new chans, sys_running = {}\<rparr>"

text \<open>\<open>token_room\<close> bounds the runs considered: the token counter has not wrapped, that is,
  the process has accepted fewer than \<open>2\<^sup>6\<^sup>4 - 1\<close> registrations.\<close>

inductive sys_step ::
    "'ch try_send_fn \<Rightarrow> (nat \<Rightarrow> 'ch) \<Rightarrow> ('ch \<Rightarrow> (server_to_sim \<times> 'ch) option) \<Rightarrow>
     'ch sys \<Rightarrow> 'ch sys \<Rightarrow> bool" for ts mk rv where
  ss_open: "session_open mk first (sys_map s) = (Inr (i, t, tx), m') \<Longrightarrow> token_room (sys_map s) \<Longrightarrow>
     sys_step ts mk rv s \<lparr>sys_map = m', sys_running = insert (i, t) (sys_running s)\<rparr>"
| ss_refuse: "session_open mk first (sys_map s) = (Inl e, m') \<Longrightarrow>
     sys_step ts mk rv s (s\<lparr>sys_map := m'\<rparr>)"
| ss_item: "(i, t) \<in> sys_running s \<Longrightarrow>
     session_item (\<lambda>m. m) i t item (sys_map s) = (True, m') \<Longrightarrow>
     sys_step ts mk rv s (s\<lparr>sys_map := m'\<rparr>)"
| ss_stop: "(i, t) \<in> sys_running s \<Longrightarrow>
     session_item (\<lambda>m. m) i t item (sys_map s) = (False, m') \<Longrightarrow>
     sys_step ts mk rv s \<lparr>sys_map = remove_if i t m', sys_running = sys_running s - {(i, t)}\<rparr>"
| ss_closed: "(i, t) \<in> sys_running s \<Longrightarrow>
     sys_step ts mk rv s
       \<lparr>sys_map = remove_if i t (sys_map s), sys_running = sys_running s - {(i, t)}\<rparr>"
| ss_push: "(i, t) \<in> sys_running s \<Longrightarrow> sys_step ts mk rv s (s\<lparr>sys_map := push_inbound i msg (sys_map s)\<rparr>)"
| ss_beat: "(i, t) \<in> sys_running s \<Longrightarrow> sys_step ts mk rv s (s\<lparr>sys_map := set_heartbeat i t hb (sys_map s)\<rparr>)"
| ss_entry: "(i, t) \<in> sys_running s \<Longrightarrow> owns i t (sys_map s) \<Longrightarrow>
     sys_step ts mk rv s (s\<lparr>sys_map := drop_entry i (sys_map s)\<rparr>)"
| ss_complete: "sys_step ts mk rv s (s\<lparr>sys_map := complete_waiter msg (sys_map s)\<rparr>)"
| ss_queue: "(i, t) \<in> sys_running s \<Longrightarrow> sys_step ts mk rv s (s\<lparr>sys_map := queue_inbound i msg (sys_map s)\<rparr>)"
| ss_fail: "sys_step ts mk rv s (s\<lparr>sys_map := fail_waiters i (sys_map s)\<rparr>)"
| ss_tool: "tool_op ts (sys_map s) m' \<Longrightarrow> sys_step ts mk rv s (s\<lparr>sys_map := m'\<rparr>)"
| ss_stream: "outbound_next rv rx (sys_map s) = (r, m') \<Longrightarrow>
     sys_step ts mk rv s (s\<lparr>sys_map := m'\<rparr>)"

inductive sys_reachable for ts mk rv chans where
  sr_init: "sys_reachable ts mk rv chans (sys_init chans)"
| sr_step: "sys_reachable ts mk rv chans s \<Longrightarrow> sys_step ts mk rv s s' \<Longrightarrow>
     sys_reachable ts mk rv chans s'"

definition caps_wf :: "'ch imap \<Rightarrow> bool" where
  "caps_wf m \<longleftrightarrow> (\<forall>i inst. hm_get (im_inner m) i = Some inst \<longrightarrow>
     iq_cap (inst_inbound inst) = QUEUE_CAPACITY)"

definition sys_inv :: "'ch sys \<Rightarrow> bool" where
  "sys_inv s \<longleftrightarrow>
     imap_wf (sys_map s) \<and> tokens_wf (sys_map s) \<and> caps_wf (sys_map s) \<and>
     (\<forall>i t. owner_of (sys_map s) i = Some t \<longrightarrow> (i, t) \<in> sys_running s)"

lemma caps_wf_ops [wf_intros]:
  assumes "caps_wf m"
  shows "caps_wf (snd (imap_insert reg QUEUE_CAPACITY tx m))"
    "caps_wf (set_heartbeat i tok hb m)" "caps_wf (remove_if i tok m)"
    "caps_wf (push_inbound i msg m)" "caps_wf (snd (try_recv_inbound i m))"
    "caps_wf (set_read_mask i ps m)" "caps_wf (set_exclude_log_components i ps m)"
  using assms by (auto simp: caps_wf_def inner_lookups iq_new_def split: if_splits)

lemma set_default_frame [frame_simps]:
  "im_inner (set_default_instance d m) = im_inner m"
  "im_next_token (set_default_instance d m) = im_next_token m"
  by (simp_all add: set_default_instance_def)

lemma caps_wf_frames [wf_intros]:
  assumes "caps_wf m"
  shows "caps_wf (snd (next_corr m))" "caps_wf (snd (try_send ts i msg m))"
    "caps_wf (snd (register_waiter i c k m))" "caps_wf (take_waiter c m)"
    "caps_wf (set_default_instance d m)" "caps_wf (snd (mpsc_channel e m))"
  using assms by (simp_all add: caps_wf_def frame_simps)

lemma caps_wf_halves [wf_intros]:
  assumes "caps_wf m"
  shows "caps_wf (drop_entry i m)" "caps_wf (fail_waiters i m)"
    "caps_wf (complete_waiter msg m)" "caps_wf (queue_inbound i msg m)"
  using assms by (auto simp: caps_wf_def frame_simps queue_inbound_inner split: if_splits)

lemma owner_of_frames [simp]:
  "owner_of (snd (next_corr m)) = owner_of m" "owner_of (snd (try_send ts i msg m)) = owner_of m"
  "owner_of (snd (register_waiter i c k m)) = owner_of m" "owner_of (take_waiter c m) = owner_of m"
  "owner_of (set_default_instance d m) = owner_of m" "owner_of (snd (mpsc_channel e m)) = owner_of m"
  by (simp_all add: owner_of_def frame_simps fun_eq_iff)

lemma tokens_wf_mono:
  assumes "tokens_wf m" and "im_next_token m' = im_next_token m"
    and "\<And>i t. owner_of m' i = Some t \<Longrightarrow> owner_of m i = Some t"
  shows "tokens_wf m'"
  using assms unfolding tokens_wf_def by auto

lemma sys_inv_shrink:
  assumes "sys_inv s" and "imap_wf m'" and "caps_wf m'" and "im_next_token m' = im_next_token (sys_map s)"
    and "\<And>i t. owner_of m' i = Some t \<Longrightarrow> owner_of (sys_map s) i = Some t \<and> (i, t) \<in> R"
  shows "sys_inv \<lparr>sys_map = m', sys_running = R\<rparr>"
  using assms tokens_wf_mono [of "sys_map s" m'] by (simp add: sys_inv_def)

lemma tool_op_same:
  assumes "tool_op ts m m'"
  shows "owner_of m' = owner_of m \<and> im_next_token m' = im_next_token m \<and>
    (imap_wf m \<longrightarrow> imap_wf m') \<and> (caps_wf m \<longrightarrow> caps_wf m')"
  using assms
  by (induction rule: tool_op.induct)
    (auto simp: frame_simps intro: wf_intros)

lemma item_same:
  assumes "session_item (\<lambda>m. m) i t item m = (go, m')"
  shows "im_next_token m' = im_next_token m \<and> (imap_wf m \<longrightarrow> imap_wf m') \<and>
    (caps_wf m \<longrightarrow> caps_wf m') \<and> (owner_of m' j = Some u \<longrightarrow> owner_of m j = Some u)"
  using assms
  by (auto simp: session_item_def frame_simps intro!: wf_intros
      split: if_splits stream_item.splits option.splits sim_payload.splits)

lemma sys_inv_init: "sys_inv (sys_init chans)"
  by (auto simp: sys_inv_def sys_init_def caps_wf_def tokens_wf_def owner_of_def imap_new_def
      intro: imap_wf_new [unfolded imap_new_def])

lemma sys_inv_open:
  assumes "sys_inv s" and open_ok: "session_open mk first (sys_map s) = (Inr (i, t, tx), m')"
    and room: "token_room (sys_map s)"
  shows "sys_inv \<lparr>sys_map = m', sys_running = insert (i, t) (sys_running s)\<rparr>"
proof -
  let ?m = "sys_map s"
  obtain reg where reg: "i = reg_instance_id reg" "t = im_next_token ?m"
    "m' = snd (imap_insert reg QUEUE_CAPACITY (im_next_chan ?m)
                (snd (mpsc_channel (mk QUEUE_CAPACITY) ?m)))"
    using open_ok by (cases rule: session_open_cases) auto
  have "imap_wf m'" using assms(1) imap_wf_open [OF _ open_ok] by (simp add: sys_inv_def)
  moreover have "caps_wf m'" using assms(1) by (auto simp: reg sys_inv_def intro!: wf_intros)
  moreover have "tokens_wf m'"
    using tr.enter_wf [of "snd (mpsc_channel (mk QUEUE_CAPACITY) ?m)"
        "(reg, QUEUE_CAPACITY, im_next_chan ?m)"] assms(1) room
    by (simp add: reg insert_session_def sys_inv_def tokens_wf_def token_room_def frame_simps)
  moreover have "owner_of m' j = Some u \<Longrightarrow> (j, u) \<in> insert (i, t) (sys_running s)" for j u
    using assms(1) by (auto simp: reg sys_inv_def frame_simps split: if_splits)
  ultimately show ?thesis by (simp add: sys_inv_def)
qed

lemma sys_inv_remove:
  assumes "sys_inv s" and "im_next_token m' = im_next_token (sys_map s)"
    and "imap_wf m'" and "caps_wf m'"
    and "\<And>j u. owner_of m' j = Some u \<Longrightarrow> owner_of (sys_map s) j = Some u"
  shows "sys_inv \<lparr>sys_map = remove_if i t m', sys_running = sys_running s - {(i, t)}\<rparr>"
proof (rule sys_inv_shrink [OF assms(1)])
  fix j u assume j: "owner_of (remove_if i t m') j = Some u"
  then have "owner_of m' j = Some u" "(j, u) \<noteq> (i, t)" by (auto split: if_splits)
  with assms show "owner_of (sys_map s) j = Some u \<and> (j, u) \<in> sys_running s - {(i, t)}"
    by (auto simp: sys_inv_def)
qed (use assms in \<open>auto simp: frame_simps intro: wf_intros\<close>)

lemma sys_inv_update:
  assumes "sys_inv s" and "im_next_token m' = im_next_token (sys_map s)"
    and "imap_wf m'" and "caps_wf m'"
    and "\<And>j u. owner_of m' j = Some u \<Longrightarrow> owner_of (sys_map s) j = Some u"
  shows "sys_inv (s\<lparr>sys_map := m'\<rparr>)"
  using sys_inv_shrink [of s m' "sys_running s"] assms by (auto simp: sys_inv_def)

lemma same_tokens:
  "im_next_token (push_inbound i msg m) = im_next_token m"
  "im_next_token (set_heartbeat i t hb m) = im_next_token m"
  "im_next_token (drop_entry i m) = im_next_token m"
  "im_next_token (fail_waiters i m) = im_next_token m"
  "im_next_token (complete_waiter msg m) = im_next_token m"
  "im_next_token (queue_inbound i msg m) = im_next_token m"
  by (simp_all add: frame_simps)

lemma sys_inv_step: "sys_step ts mk rv s s' \<Longrightarrow> sys_inv s \<Longrightarrow> sys_inv s'"
proof (induction rule: sys_step.induct)
  case (ss_refuse first s e m')
  then show ?case
    by (cases rule: session_open_cases [OF ss_refuse.hyps]) auto
next
  case (ss_item i t s item m')
  with item_same [OF ss_item.hyps(2)] show ?case
    by (intro sys_inv_update) (auto simp: sys_inv_def)
next
  case (ss_stop i t s item m')
  with item_same [OF ss_stop.hyps(2)] show ?case
    by (intro sys_inv_remove) (auto simp: sys_inv_def)
next
  case (ss_closed i t s)
  then show ?case by (intro sys_inv_remove) (auto simp: sys_inv_def)
next
  case (ss_tool s m')
  with tool_op_same [OF ss_tool.hyps] show ?case
    by (intro sys_inv_update) (auto simp: sys_inv_def)
next
  case (ss_stream rx s r m')
  then have m': "m' = sys_map s \<or> (\<exists>q. m' = (sys_map s)\<lparr>im_outq := q\<rparr>)"
    by (auto simp: outbound_next_def split: option.splits)
  then have "im_inner m' = im_inner (sys_map s)" "im_next_token m' = im_next_token (sys_map s)"
    "im_default_instance m' = im_default_instance (sys_map s)"
    "im_next_chan m' = im_next_chan (sys_map s)" "waiters_wf (sys_map s) \<Longrightarrow> waiters_wf m'"
    by (auto simp: waiters_wf_def)
  with ss_stream.prems show ?case
    by (intro sys_inv_update)
      (auto simp: sys_inv_def owner_of_def caps_wf_def imap_wf_def)
next
  case (ss_push i t s msg)
  then show ?case
    by (intro sys_inv_update) (auto simp: sys_inv_def same_tokens intro: wf_intros)
next
  case (ss_beat i t s hb)
  then show ?case
    by (intro sys_inv_update) (auto simp: sys_inv_def same_tokens intro: wf_intros)
next
  case (ss_entry i t s)
  then show ?case
    by (intro sys_inv_update) (auto simp: sys_inv_def same_tokens intro: wf_intros split: if_splits)
next
  case (ss_fail s i)
  then show ?case
    by (intro sys_inv_update) (auto simp: sys_inv_def same_tokens intro: wf_intros)
next
  case (ss_complete s msg)
  then show ?case
    by (intro sys_inv_update) (auto simp: sys_inv_def same_tokens intro: wf_intros)
next
  case (ss_queue i t s msg)
  then show ?case
    by (intro sys_inv_update) (auto simp: sys_inv_def same_tokens intro: wf_intros)
qed (auto intro: sys_inv_open)

lemma sys_reachable_inv: "sys_reachable ts mk rv chans s \<Longrightarrow> sys_inv s"
  by (induction rule: sys_reachable.induct) (auto intro: sys_inv_init sys_inv_step)

subsection \<open>Steps of the map\<close>

text \<open>The steps as a relation on the map alone, whatever sessions are running.\<close>

definition map_step ::
    "'ch try_send_fn \<Rightarrow> (nat \<Rightarrow> 'ch) \<Rightarrow> ('ch \<Rightarrow> (server_to_sim \<times> 'ch) option) \<Rightarrow>
     'ch imap \<Rightarrow> 'ch imap \<Rightarrow> bool" where
  "map_step ts mk rv m m' \<longleftrightarrow> (\<exists>s s'. sys_step ts mk rv s s' \<and> sys_map s = m \<and> sys_map s' = m')"

definition map_ok :: "'ch imap \<Rightarrow> bool" where
  "map_ok m \<longleftrightarrow> imap_wf m \<and> caps_wf m"

lemma map_ok_step: "sys_step ts mk rv s s' \<Longrightarrow> map_ok (sys_map s) \<Longrightarrow> map_ok (sys_map s')"
proof (induction rule: sys_step.induct)
  case (ss_open first s i t tx m')
  then have "imap_wf m'" by (auto simp: map_ok_def intro: imap_wf_open)
  moreover have "caps_wf m'"
    using ss_open.prems
    by (cases rule: session_open_cases [OF ss_open.hyps(1)]) (auto simp: map_ok_def intro!: wf_intros)
  ultimately show ?case by (simp add: map_ok_def)
next
  case (ss_refuse first s e m')
  then show ?case by (cases rule: session_open_cases [OF ss_refuse.hyps]) auto
next
  case (ss_item i t s item m')
  with item_same [OF ss_item.hyps(2)] show ?case by (simp add: map_ok_def)
next
  case (ss_stop i t s item m')
  with item_same [OF ss_stop.hyps(2)] show ?case by (auto simp: map_ok_def intro: wf_intros)
next
  case (ss_closed i t s)
  then show ?case by (auto simp: map_ok_def intro: wf_intros)
next
  case (ss_push i t s msg)
  then show ?case by (auto simp: map_ok_def intro: wf_intros)
next
  case (ss_beat i t s hb)
  then show ?case by (auto simp: map_ok_def intro: wf_intros)
next
  case (ss_entry i t s)
  then show ?case by (auto simp: map_ok_def intro: wf_intros)
next
  case (ss_fail s i)
  then show ?case by (auto simp: map_ok_def intro: wf_intros)
next
  case (ss_complete s msg)
  then show ?case by (auto simp: map_ok_def intro: wf_intros)
next
  case (ss_queue i t s msg)
  then show ?case by (auto simp: map_ok_def intro: wf_intros)
next
  case (ss_tool s m')
  with tool_op_same [OF ss_tool.hyps] show ?case by (simp add: map_ok_def)
next
  case (ss_stream rx s r m')
  then show ?case
    by (auto simp: outbound_next_def map_ok_def imap_wf_def caps_wf_def waiters_wf_def
        split: option.splits)
qed

lemma map_steps_ok: "(map_step ts mk rv)\<^sup>*\<^sup>* m m' \<Longrightarrow> map_ok m \<Longrightarrow> map_ok m'"
  by (induction rule: rtranclp_induct) (auto simp: map_step_def intro: map_ok_step)

lemma session_op_steps:
  "map_step ts mk rv m (push_inbound i msg m)" "map_step ts mk rv m (set_heartbeat i t hb m)"
  "owns i t m \<Longrightarrow> map_step ts mk rv m (drop_entry i m)" "map_step ts mk rv m (fail_waiters i m)"
  "map_step ts mk rv m (remove_if i t m)"
  "map_step ts mk rv m (complete_waiter msg m)" "map_step ts mk rv m (queue_inbound i msg m)"
  using ss_complete [of ts mk rv "\<lparr>sys_map = m, sys_running = {(i, t)}\<rparr>" msg]
    ss_queue [of i t "\<lparr>sys_map = m, sys_running = {(i, t)}\<rparr>" ts mk rv msg]
    ss_push [of i t "\<lparr>sys_map = m, sys_running = {(i, t)}\<rparr>" ts mk rv msg]
    ss_beat [of i t "\<lparr>sys_map = m, sys_running = {(i, t)}\<rparr>" ts mk rv hb]
    ss_entry [of i t "\<lparr>sys_map = m, sys_running = {(i, t)}\<rparr>" ts mk rv]
    ss_fail [of ts mk rv "\<lparr>sys_map = m, sys_running = {(i, t)}\<rparr>" i]
    ss_closed [of i t "\<lparr>sys_map = m, sys_running = {(i, t)}\<rparr>" ts mk rv]
  by (auto simp: map_step_def, force+)

lemma after_session_op:
  assumes "(map_step ts mk rv)\<^sup>*\<^sup>* m n"
  shows "(map_step ts mk rv)\<^sup>*\<^sup>* m (push_inbound i msg n)"
    and "(map_step ts mk rv)\<^sup>*\<^sup>* m (set_heartbeat i t hb n)"
    and "(map_step ts mk rv)\<^sup>*\<^sup>* m (remove_if i t n)"
  using assms session_op_steps(1,2,5) by (blast intro: rtranclp.rtrancl_into_rtrancl)+

lemma session_item_steps:
  assumes "\<And>m. (map_step ts mk rv)\<^sup>*\<^sup>* m (g m)"
  shows "(map_step ts mk rv)\<^sup>*\<^sup>* m (snd (session_item g i t item m))"
proof -
  have gap: "(map_step ts mk rv)\<^sup>*\<^sup>* k n \<Longrightarrow> (map_step ts mk rv)\<^sup>*\<^sup>* k (g n)" for k n
    by (rule rtranclp_trans [OF _ assms])
  show ?thesis
    by (auto simp: session_item_def intro!: after_session_op gap
        split: stream_item.split option.split sim_payload.split)
qed

text \<open>\<open>remove_if\<close> lock by lock: \<open>g\<close> is what the other tasks did after the entry was removed and before
  the waiters were collected.\<close>

definition remove_if_gap :: "('ch imap \<Rightarrow> 'ch imap) \<Rightarrow> string \<Rightarrow> u64 \<Rightarrow> 'ch imap \<Rightarrow> 'ch imap" where
  "remove_if_gap g iid token m =
     (if owns iid token m then fail_waiters iid (g (drop_entry iid m)) else m)"

lemma remove_if_no_gap: "remove_if_gap (\<lambda>m. m) i t m = remove_if i t m"
  by (simp add: remove_if_gap_def remove_if_halves)

lemma remove_if_gap_steps:
  assumes "\<And>m. (map_step ts mk rv)\<^sup>*\<^sup>* m (g m)"
  shows "(map_step ts mk rv)\<^sup>*\<^sup>* m (remove_if_gap g i t m)"
proof (cases "owns i t m")
  case True
  have "(map_step ts mk rv)\<^sup>*\<^sup>* m (g (drop_entry i m))"
    using session_op_steps(3) [OF True] assms by (rule converse_rtranclp_into_rtranclp)
  then have "(map_step ts mk rv)\<^sup>*\<^sup>* m (fail_waiters i (g (drop_entry i m)))"
    using session_op_steps(4) by (rule rtranclp.rtrancl_into_rtrancl)
  with True show ?thesis by (simp add: remove_if_gap_def)
qed (simp add: remove_if_gap_def)


subsection \<open>Properties\<close>

text \<open>C27. A stream becomes a session exactly when its first message is a \<open>Register\<close> with an id of
  1 to 64 bytes; then the map holds a fresh entry for it, owned by the token it was given, with
  an empty queue and no view settings, and no other instance changes. Anything else is answered
  with an error and leaves the map as it was.\<close>

theorem session_open_admits:
  "case session_open mk first m of
     (Inl e, m') \<Rightarrow> m' = m \<and>
       (\<nexists>msg reg. first = Some (Item msg) \<and> payload msg = Some (Register reg) \<and>
          reg_instance_id reg \<noteq> [] \<and> length (reg_instance_id reg) \<le> 64)
   | (Inr (i, t, tx), m') \<Rightarrow>
       (\<exists>msg reg. first = Some (Item msg) \<and> payload msg = Some (Register reg) \<and>
          i = reg_instance_id reg \<and> i \<noteq> [] \<and> length i \<le> 64 \<and> t = im_next_token m \<and>
          hm_get (im_inner m') = (hm_get (im_inner m))(i \<mapsto>
            \<lparr>inst_token = t, inst_register = reg, inst_last_heartbeat = None,
             inst_inbound = iq_new 128, inst_outbound_tx = tx, inst_read_mask = [],
             inst_exclude_log_components = []\<rparr>))"
proof (cases "session_open mk first m")
  case (Pair r m')
  have valid: "is_valid_instance_id i \<longleftrightarrow> i \<noteq> [] \<and> length i \<le> 64" for i
    by (auto simp: is_valid_instance_id_def INSTANCE_ID_MAX_LEN_def)
  show ?thesis unfolding Pair
    by (cases rule: session_open_cases [OF Pair])
      (auto simp: valid fun_eq_iff imap_insert_inner frame_simps QUEUE_CAPACITY_def)
qed

lemma session_item_others:
  assumes "\<And>m. hm_get (im_inner (g m)) j = hm_get (im_inner m) j" and "j \<noteq> i"
  shows "hm_get (im_inner (snd (session_item g i t item m))) j = hm_get (im_inner m) j"
  using assms
  by (auto simp: session_item_def inner_lookups split: stream_item.split option.split sim_payload.split)

text \<open>C28. The end of a session always gives its id back and touches nothing else: whatever the
  stream carried and whatever other tasks did to the map between the loop's steps, after the loop
  the session owns nothing; an instance the other tasks left alone is left alone by the loop;
  and a loop whose session was already replaced changes nothing at all.\<close>

theorem session_end_releases:
  assumes "\<And>m. hm_get (im_inner (g m)) j = hm_get (im_inner m) j" and "j \<noteq> i"
  shows "\<not> owns i t (session_loop g i t items m) \<and>
    hm_get (im_inner (session_loop g i t items m)) j = hm_get (im_inner m) j \<and>
    (\<not> owns i t m \<longrightarrow> session_loop (\<lambda>m. m) i t items m = m)"
proof (intro conjI impI)
  show "hm_get (im_inner (session_loop g i t items m)) j = hm_get (im_inner m) j"
  proof (induction items arbitrary: m)
    case (Cons item items)
    obtain go m' where step: "session_item g i t item m = (go, m')" by fastforce
    with session_item_others [OF assms, of t item m] have "hm_get (im_inner m') j = hm_get (im_inner m) j"
      by simp
    with step Cons.IH assms show ?case by (cases go) (simp_all add: remove_if_inner)
  qed (use assms in \<open>simp add: remove_if_inner\<close>)
  show "session_loop (\<lambda>m. m) i t items m = m" if "\<not> owns i t m"
    using that by (cases items) (simp_all add: session_item_stale remove_if_def)
qed (rule session_loop_released)

theorem session_end_releases_witness:
  "hm_get (im_inner (session_loop (\<lambda>m. m) ''b'' 1 [ItemError] one_instance)) ''a'' =
     hm_get (im_inner one_instance) ''a''"
  using session_end_releases [of "\<lambda>m. m" "''a''" "''b''" 1 "[ItemError]" one_instance] by simp

text \<open>A heartbeat is always recorded: the owner's heartbeat replaces the instance's last one even
  when the session view leaves heartbeats out of the queue, and the loop goes on.\<close>

lemma heartbeat_is_recorded:
  assumes "hm_get (im_inner m) i = Some inst" and "inst_token inst = t"
    and "payload msg = Some (Heartbeat hb)"
  shows "fst (session_item (\<lambda>m. m) i t (Item msg) m) \<and>
    (\<exists>inst'. hm_get (im_inner (snd (session_item (\<lambda>m. m) i t (Item msg) m))) i = Some inst' \<and>
       inst_last_heartbeat inst' = Some hb \<and>
       (inst_read_mask inst \<noteq> [] \<and> ''heartbeat'' \<notin> set (inst_read_mask inst) \<longrightarrow>
          inst_inbound inst' = inst_inbound inst))"
  using assms
  by (auto simp: session_item_def inner_lookups owns_iff inbound_visible_iff
      inbound_payload_name_def excluded_log_def)

lemma heartbeat_is_recorded_witness:
  "fst (session_item (\<lambda>m. m) ''a'' 1 (Item (envelope 1 0 (Heartbeat (sample_heartbeat 3)))) one_instance)"
proof -
  obtain inst where "hm_get (im_inner one_instance) ''a'' = Some inst" "inst_token inst = 1"
    using one_instance_tokens(2) by (auto simp: owns_iff)
  from heartbeat_is_recorded [OF this, of "envelope 1 0 (Heartbeat (sample_heartbeat 3))"
      "sample_heartbeat 3"] show ?thesis by simp
qed

text \<open>C38. The check of ownership and the push are two acquisitions of the lock: if another stream
  registers the same id in between, the message of the replaced session goes to the queue of
  the new one.\<close>

theorem stale_message_reaches_replacement:
  assumes "owns i t m" and "reg_instance_id reg = i" and "0 < n"
    and "payload msg = Some p" and "\<forall>hb. p \<noteq> Heartbeat hb" and "\<forall>bye. p \<noteq> Goodbye bye"
  shows "map_option (\<lambda>inst. (inst_token inst, iq_items (inst_inbound inst)))
      (hm_get (im_inner (snd (session_item (\<lambda>m. snd (imap_insert reg n tx m)) i t (Item msg) m))) i)
    = Some (im_next_token m, [msg])"
  using assms
  by (auto simp: session_item_def inner_lookups inbound_visible_iff excluded_log_def iq_push_def
      iq_new_def split: sim_payload.splits)

theorem stale_message_reaches_replacement_witness:
  "map_option (\<lambda>inst. (inst_token inst, iq_items (inst_inbound inst)))
     (hm_get (im_inner (snd (session_item (\<lambda>m. snd (imap_insert (sample_register ''a'') 4 1 m)) ''a'' 1
        (Item (envelope 9 0 (Log (sample_log ''ui'' ''old'')))) one_instance))) ''a'')
   = Some (2, [envelope 9 0 (Log (sample_log ''ui'' ''old''))])"
  using stale_message_reaches_replacement [OF one_instance_tokens(2), of "sample_register ''a''" 4
      "envelope 9 0 (Log (sample_log ''ui'' ''old''))" "Log (sample_log ''ui'' ''old'')" 1]
  by (simp add: one_instance_tokens)

text \<open>C39. The end of a session can fail a call that waits on the session that replaced it:
  \<open>remove_if\<close> gives up the lock before it collects the waiters of the id, so if in between the
  simulator registers again and a tool call starts to wait on it, that call is told
  \<open>Disconnected\<close> although its instance is connected.\<close>

theorem late_failure_hits_replacement:
  assumes "owns i t m" and "waiters_wf m" and "reg_instance_id reg = i"
  shows "let g = \<lambda>n. snd (register_waiter i c k (snd (imap_insert reg cap tx n)));
             m' = remove_if_gap g i t m
         in owns i (im_next_token m) m' \<and> hm_get (im_waiters m') c = None \<and>
            im_tx_fate m' (im_next_chan m) = TxDropped"
proof -
  let ?n = "snd (imap_insert reg cap tx (drop_entry i m))"
  let ?r = "snd (register_waiter i c k ?n)"
  have chan: "im_next_chan ?n = im_next_chan m"
    by (simp add: imap_insert_def drop_entry_def Let_def)
  have wf: "waiters_wf ?r" by (intro wf_intros assms(2))
  have at: "hm_get (im_waiters ?r) c = Some (k, im_next_chan m)" "hm_get (im_waiter_instance ?r) c = Some i"
    using chan by (simp_all add: register_waiter_view register_waiter_def Let_def)
  have "owns i (im_next_token m) (fail_waiters i ?r)"
    using assms(3) by (simp add: owns_owner_of frame_simps)
  moreover have "hm_get (im_waiters (fail_waiters i ?r)) c = None"
    using at by (simp add: fail_waiters_get [OF wf])
  moreover have "im_tx_fate (fail_waiters i ?r) (im_next_chan m) = TxDropped"
    using at fail_waiters_fate [OF wf, of i "im_next_chan m"] by auto
  ultimately show ?thesis using assms(1) by (simp add: remove_if_gap_def Let_def)
qed

theorem late_failure_hits_replacement_witness:
  "let m' = remove_if_gap (\<lambda>n. snd (register_waiter ''a'' 7 WaitAny
                 (snd (imap_insert (sample_register ''a'') 128 1 n)))) ''a'' 1 one_instance
   in owns ''a'' 2 m' \<and> im_tx_fate m' 0 = TxDropped"
  using late_failure_hits_replacement [OF one_instance_tokens(2) one_instance_wf,
      of "sample_register ''a''" 7 WaitAny 128 1]
  by (simp add: one_instance_tokens one_instance_def imap_insert_def imap_new_def Let_def)

text \<open>C4. In every reachable state of the process, however sessions and tool calls interleaved, a
  connected instance has a valid id, the id its \<open>Register\<close> carried, a queue of at most 128
  messages, and a session that is still running and owns it; so when no session runs, no
  instance is connected.\<close>

theorem connected_means_running:
  assumes "sys_reachable ts mk rv chans s" and "hm_get (im_inner (sys_map s)) i = Some inst"
  shows "(i, inst_token inst) \<in> sys_running s \<and> is_valid_instance_id i \<and>
    reg_instance_id (inst_register inst) = i \<and> length (iq_items (inst_inbound inst)) \<le> 128"
proof -
  have inv: "sys_inv s" by (rule sys_reachable_inv [OF assms(1)])
  then have "entry_wf i inst" and "iq_cap (inst_inbound inst) = 128"
    using assms(2) by (auto simp: sys_inv_def caps_wf_def QUEUE_CAPACITY_def dest: imap_wfD(3))
  moreover have "(i, inst_token inst) \<in> sys_running s"
    using inv assms(2) by (simp add: sys_inv_def owner_of_def)
  ultimately show ?thesis by (auto simp: entry_wf_def iq_wf_def)
qed

definition list_recv :: "server_to_sim list \<Rightarrow> (server_to_sim \<times> server_to_sim list) option" where
  "list_recv q = (case q of [] \<Rightarrow> None | msg # q' \<Rightarrow> Some (msg, q'))"

definition first_session :: "server_to_sim list sys" where
  "first_session =
     \<lparr>sys_map = snd (session_open (\<lambda>_. []) (Some (Item (envelope 0 0 (Register (sample_register ''a'')))))
                 (imap_new (\<lambda>_. []))),
      sys_running = {(''a'', 1)}\<rparr>"

lemma first_session_step: "sys_step (list_try_send 128) (\<lambda>_. []) list_recv (sys_init (\<lambda>_. [])) first_session"
  unfolding first_session_def
  using ss_open [where s = "sys_init (\<lambda>_. [])" and i = "''a''" and t = 1 and tx = 0 and mk = "\<lambda>_. []"
      and first = "Some (Item (envelope 0 0 (Register (sample_register ''a''))))"
      and ts = "list_try_send 128" and rv = list_recv]
  by (simp add: sys_init_def session_open_def is_valid_instance_id_def INSTANCE_ID_MAX_LEN_def
      mpsc_channel_def imap_insert_def imap_new_def Let_def token_room_def)

lemma first_session_reachable:
  "sys_reachable (list_try_send 128) (\<lambda>_. []) list_recv (\<lambda>_. []) first_session"
  by (rule sr_step [OF sr_init first_session_step])

theorem connected_means_running_witness:
  "\<exists>inst. hm_get (im_inner (sys_map first_session)) ''a'' = Some inst \<and>
     (''a'', inst_token inst) \<in> sys_running first_session"
proof -
  have "\<exists>inst. hm_get (im_inner (sys_map first_session)) ''a'' = Some inst"
    by (simp add: first_session_def session_open_def is_valid_instance_id_def
        INSTANCE_ID_MAX_LEN_def mpsc_channel_def imap_insert_def Let_def)
  with connected_means_running [OF first_session_reachable] show ?thesis by blast
qed


end
