(* ===== verification/Server_Spec.thy ===== *)
theory Server_Spec
  imports Session
begin

text \<open>
  What the server promises, without its tables, locks, tokens and eviction policy: a directory of
  instances, each the work of one numbered session, with a mailbox that may lose messages but
  never reorders them or gives up a reply; and a set of open requests.

  \<open>spec_of\<close> reads the abstract state off the instance map. The locale \<open>simulation\<close> is the notion of
  refinement used, interpreted on the steps of the process; invariants and histories are proved of
  the specification and carried over to the code.
\<close>

subsection \<open>Simulations\<close>

locale simulation =
  fixes step :: "'s \<Rightarrow> 's \<Rightarrow> bool"
    and spec :: "'t \<Rightarrow> 't \<Rightarrow> bool"
    and abs :: "'s \<Rightarrow> 't"
    and inv :: "'s \<Rightarrow> bool"
  assumes inv_step: "inv s \<Longrightarrow> step s s' \<Longrightarrow> inv s'"
    and sim_step: "inv s \<Longrightarrow> step s s' \<Longrightarrow> spec\<^sup>*\<^sup>* (abs s) (abs s')"
begin

lemma inv_steps: "step\<^sup>*\<^sup>* s s' \<Longrightarrow> inv s \<Longrightarrow> inv s'"
  by (induction rule: rtranclp_induct) (auto intro: inv_step)

lemma sim_steps: "step\<^sup>*\<^sup>* s s' \<Longrightarrow> inv s \<Longrightarrow> spec\<^sup>*\<^sup>* (abs s) (abs s')"
proof (induction rule: rtranclp_induct)
  case (step t u)
  from sim_step [OF inv_steps [OF step.hyps(1) step.prems] step.hyps(2)] step.IH [OF step.prems]
  show ?case by (rule rtranclp_trans [rotated])
qed simp

text \<open>What the specification preserves, the implementation preserves.\<close>

lemma transfer_invariant:
  assumes "\<And>t t'. P t \<Longrightarrow> spec t t' \<Longrightarrow> P t'"
    and "step\<^sup>*\<^sup>* s s'" and "inv s" and "P (abs s)"
  shows "P (abs s')"
  using sim_steps [OF assms(2,3)] assms(4)
  by (induction rule: rtranclp_induct) (auto intro: assms(1))

end

subsection \<open>The specification\<close>

record spec_entry =
  se_session :: nat
  se_register :: register
  se_beat :: "heartbeat option"
  se_inbox :: "sim_to_server list"

record server_spec =
  ssp_dir :: "string \<Rightarrow> spec_entry option"
  ssp_default :: "string option"
  ssp_pending :: "u64 \<Rightarrow> (wait_kind \<times> string) option"
  ssp_sessions :: nat

definition spec_init :: server_spec where
  "spec_init = \<lparr>ssp_dir = (\<lambda>_. None), ssp_default = None, ssp_pending = (\<lambda>_. None), ssp_sessions = 1\<rparr>"

text \<open>What a message may do to a mailbox: it may be added or not, and room may be made for it, but the
  mailbox does not shrink, keeps its order and its bound, and protected messages stay.\<close>

definition mailbox_step :: "sim_to_server \<Rightarrow> sim_to_server list \<Rightarrow> sim_to_server list \<Rightarrow> bool" where
  "mailbox_step msg q q' \<longleftrightarrow>
     subseq q' (q @ [msg]) \<and> length q \<le> length q' \<and> (length q \<le> 128 \<longrightarrow> length q' \<le> 128) \<and>
     prefix (filter is_never_drop q) (filter is_never_drop q')"

abbreviation dir_upd :: "string \<Rightarrow> spec_entry \<Rightarrow> server_spec \<Rightarrow> server_spec" where
  "dir_upd i e t \<equiv> t\<lparr>ssp_dir := (ssp_dir t)(i \<mapsto> e)\<rparr>"

inductive spec_step :: "server_spec \<Rightarrow> server_spec \<Rightarrow> bool" where
  sp_dial: "is_valid_instance_id (reg_instance_id reg) \<Longrightarrow>
     spec_step t (dir_upd (reg_instance_id reg)
       \<lparr>se_session = ssp_sessions t, se_register = reg, se_beat = None, se_inbox = []\<rparr>
       (t\<lparr>ssp_sessions := Suc (ssp_sessions t)\<rparr>))"
| sp_beat: "ssp_dir t i = Some e \<Longrightarrow> spec_step t (dir_upd i (e\<lparr>se_beat := Some hb\<rparr>) t)"
| sp_deliver: "ssp_dir t i = Some e \<Longrightarrow> mailbox_step msg (se_inbox e) q \<Longrightarrow>
     spec_step t (dir_upd i (e\<lparr>se_inbox := q\<rparr>) t)"
| sp_take: "ssp_dir t i = Some e \<Longrightarrow> se_inbox e = msg # q \<Longrightarrow>
     spec_step t (dir_upd i (e\<lparr>se_inbox := q\<rparr>) t)"
| sp_hangup: "ssp_dir t i = Some e \<Longrightarrow> spec_step t (t\<lparr>ssp_dir := (ssp_dir t)(i := None)\<rparr>)"
| sp_ask: "spec_step t (t\<lparr>ssp_pending := (ssp_pending t)(c \<mapsto> (k, i))\<rparr>)"
| sp_answer: "corr msg \<noteq> 0 \<Longrightarrow> ssp_pending t (corr msg) = Some (k, i) \<Longrightarrow> waiter_matches k msg \<Longrightarrow>
     spec_step t (t\<lparr>ssp_pending := (ssp_pending t)(corr msg := None)\<rparr>)"
| sp_cancel: "spec_step t (t\<lparr>ssp_pending := (ssp_pending t)(c := None)\<rparr>)"
| sp_fail: "spec_step t (t\<lparr>ssp_pending := (\<lambda>c. case ssp_pending t c of
       Some (k, j) \<Rightarrow> if j = i then None else Some (k, j) | None \<Rightarrow> None)\<rparr>)"
| sp_default: "(\<forall>j. d = Some j \<longrightarrow> is_valid_instance_id j) \<Longrightarrow> spec_step t (t\<lparr>ssp_default := d\<rparr>)"

abbreviation spec_steps :: "server_spec \<Rightarrow> server_spec \<Rightarrow> bool" where
  "spec_steps \<equiv> spec_step\<^sup>*\<^sup>*"

subsection \<open>The abstraction\<close>

definition entry_of :: "sim_instance \<Rightarrow> spec_entry" where
  "entry_of inst =
     \<lparr>se_session = unat (inst_token inst), se_register = inst_register inst,
      se_beat = inst_last_heartbeat inst, se_inbox = iq_items (inst_inbound inst)\<rparr>"

definition pending_of :: "'ch imap \<Rightarrow> u64 \<Rightarrow> (wait_kind \<times> string) option" where
  "pending_of m c =
     Option.bind (hm_get (im_waiters m) c) (\<lambda>(k, _).
       map_option (\<lambda>i. (k, i)) (hm_get (im_waiter_instance m) c))"

definition spec_of :: "'ch imap \<Rightarrow> server_spec" where
  "spec_of m =
     \<lparr>ssp_dir = (\<lambda>i. map_option entry_of (hm_get (im_inner m) i)),
      ssp_default = im_default_instance m, ssp_pending = pending_of m,
      ssp_sessions = unat (im_next_token m)\<rparr>"

lemma spec_of_new: "spec_of (imap_new chans) = spec_init"
  by (simp add: spec_of_def spec_init_def imap_new_def pending_of_def fun_eq_iff)

text \<open>When two maps have the same abstraction.\<close>

lemma spec_of_eqI:
  assumes "\<And>i. map_option entry_of (hm_get (im_inner m') i) = map_option entry_of (hm_get (im_inner m) i)"
    and "im_default_instance m' = im_default_instance m" and "same_waiters m m' \<or> pending_of m' = pending_of m"
    and "im_next_token m' = im_next_token m"
  shows "spec_of m' = spec_of m"
  using assms by (auto simp: spec_of_def pending_of_def same_waiters_def fun_eq_iff)

subsection \<open>Every operation is a step of the specification, or none\<close>

lemma spec_stepI: "spec_step t t' \<Longrightarrow> t'' = t' \<Longrightarrow> spec_steps t t''"
  by auto

lemma spec_of_sel [simp]:
  "ssp_dir (spec_of m) i = map_option entry_of (hm_get (im_inner m) i)"
  "ssp_default (spec_of m) = im_default_instance m"
  "ssp_pending (spec_of m) = pending_of m"
  "ssp_sessions (spec_of m) = unat (im_next_token m)"
  by (simp_all add: spec_of_def)

lemma server_spec_eqI:
  fixes t t' :: server_spec
  assumes "\<And>i. ssp_dir t i = ssp_dir t' i" and "ssp_default t = ssp_default t'"
    and "\<And>c. ssp_pending t c = ssp_pending t' c" and "ssp_sessions t = ssp_sessions t'"
  shows "t = t'"
  using assms by (intro server_spec.equality) auto

lemma pending_of_same: "same_waiters m m' \<Longrightarrow> pending_of m' = pending_of m"
  by (simp add: fun_eq_iff pending_of_def same_waiters_def)

lemma pending_of_frames [simp]:
  "pending_of (set_heartbeat i t hb m) = pending_of m"
  "pending_of (drop_entry i m) = pending_of m"
  "pending_of (snd (imap_insert reg n tx m)) = pending_of m"
  by (auto intro!: pending_of_same frame_simps)

lemma entry_of_sel [simp]:
  "se_session (entry_of inst) = unat (inst_token inst)" "se_register (entry_of inst) = inst_register inst"
  "se_beat (entry_of inst) = inst_last_heartbeat inst" "se_inbox (entry_of inst) = iq_items (inst_inbound inst)"
  by (simp_all add: entry_of_def)

lemma entry_of_updates:
  "entry_of (inst\<lparr>inst_last_heartbeat := Some hb\<rparr>) = (entry_of inst)\<lparr>se_beat := Some hb\<rparr>"
  "entry_of (inst\<lparr>inst_inbound := q\<rparr>) = (entry_of inst)\<lparr>se_inbox := iq_items q\<rparr>"
  "entry_of (inst\<lparr>inst_read_mask := ps\<rparr>) = entry_of inst"
  "entry_of (inst\<lparr>inst_exclude_log_components := cs\<rparr>) = entry_of inst"
  by (simp_all add: entry_of_def)

lemma sim_heartbeat: "spec_steps (spec_of m) (spec_of (set_heartbeat i t hb m))"
proof (cases "owns i t m")
  case True
  then obtain inst where inst: "hm_get (im_inner m) i = Some inst" by (auto simp: owns_iff)
  with True show ?thesis
    by (intro spec_stepI [OF sp_beat [of _ i "entry_of inst" hb]] server_spec_eqI)
      (auto simp: inner_lookups frame_simps entry_of_updates)
qed (simp add: set_heartbeat_stale owns_owner_of)

lemma mailbox_step_push:
  assumes "iq_wf q" and "iq_cap q = QUEUE_CAPACITY"
  shows "mailbox_step msg (iq_items q) (iq_items (iq_push msg q))"
proof -
  have "length (iq_items q) \<le> length (iq_items (iq_push msg q))"
    by (cases rule: iq_push_cases [OF assms(1), of msg]) (auto simp: length_vec_remove dest: oldest_lt)
  moreover have "length (iq_items (iq_push msg q)) \<le> 128"
    using iq_wf_push [OF assms(1), of msg] assms(2) by (simp add: iq_wf_def QUEUE_CAPACITY_def)
  ultimately show ?thesis
    by (simp add: mailbox_step_def iq_push_subseq [OF assms(1)] iq_push_keeps [OF assms(1)])
qed

lemma waiters_wf_known:
  "waiters_wf m \<Longrightarrow> hm_get (im_waiters m) c = None \<longleftrightarrow> hm_get (im_waiter_instance m) c = None"
  by (simp only: waiters_wf_def)

lemma sim_complete:
  assumes "waiters_wf m"
  shows "spec_steps (spec_of m) (spec_of (complete_waiter msg m))"
proof (cases "\<exists>k tx. corr msg \<noteq> 0 \<and> hm_get (im_waiters m) (corr msg) = Some (k, tx) \<and> waiter_matches k msg")
  case True
  then obtain k tx where hit: "corr msg \<noteq> 0" "hm_get (im_waiters m) (corr msg) = Some (k, tx)"
    "waiter_matches k msg" by blast
  then obtain i where i: "hm_get (im_waiter_instance m) (corr msg) = Some i"
    using waiters_wf_known [OF assms, of "corr msg"] by auto
  have "pending_of (complete_waiter msg m) c = (if c = corr msg then None else pending_of m c)" for c
    using hit by (simp add: complete_waiter_def pending_of_def)
  moreover have "pending_of m (corr msg) = Some (k, i)" using hit i by (simp add: pending_of_def)
  ultimately show ?thesis
    using hit by (intro spec_stepI [OF sp_answer [of msg _ k i]] server_spec_eqI) (simp_all add: frame_simps)
next
  case False
  then have "complete_waiter msg m = m" by (intro complete_waiter_miss) blast
  then show ?thesis by simp
qed

lemma sim_queue:
  assumes "map_ok m"
  shows "spec_steps (spec_of m) (spec_of (queue_inbound i msg m))"
proof (cases "\<exists>inst. hm_get (im_inner m) i = Some inst \<and> inbound_visible (inst_read_mask inst) msg \<and>
    \<not> excluded_log (inst_exclude_log_components inst) msg")
  case True
  then obtain inst where inst: "hm_get (im_inner m) i = Some inst" "inbound_visible (inst_read_mask inst) msg"
    "\<not> excluded_log (inst_exclude_log_components inst) msg" by blast
  have wf: "imap_wf m" "caps_wf m" using assms by (simp_all add: map_ok_def)
  from imap_wfD(3) [OF wf(1) inst(1)] inst(1) wf(2)
  have "mailbox_step msg (iq_items (inst_inbound inst)) (iq_items (iq_push msg (inst_inbound inst)))"
    by (intro mailbox_step_push) (auto simp: entry_wf_def caps_wf_def)
  with inst show ?thesis
    by (intro spec_stepI [OF sp_deliver [of _ i "entry_of inst" msg "iq_items (iq_push msg (inst_inbound inst))"]]
        server_spec_eqI)
      (auto simp: queue_inbound_inner frame_simps entry_of_updates pending_of_same [OF same_waiters_queue])
next
  case False
  then have "spec_of (queue_inbound i msg m) = spec_of m"
    by (intro server_spec_eqI)
      (cases "hm_get (im_inner m) i";
        auto simp: queue_inbound_inner frame_simps pending_of_same [OF same_waiters_queue])+
  then show ?thesis by simp
qed

lemma sim_push:
  assumes "map_ok m"
  shows "spec_steps (spec_of m) (spec_of (push_inbound i msg m))"
proof -
  have "map_ok (complete_waiter msg m)" "waiters_wf m"
    using assms imap_wfD(2) by (auto simp: map_ok_def intro: wf_intros)
  from rtranclp_trans [OF sim_complete [OF this(2)] sim_queue [OF this(1)]]
  show ?thesis by (simp add: push_inbound_halves)
qed

lemma sim_drop_entry: "spec_steps (spec_of m) (spec_of (drop_entry i m))"
proof (cases "hm_get (im_inner m) i")
  case None
  then have "spec_of (drop_entry i m) = spec_of m"
    by (intro server_spec_eqI) (auto simp: frame_simps)
  then show ?thesis by simp
next
  case (Some inst)
  then show ?thesis
    by (intro spec_stepI [OF sp_hangup [of _ i "entry_of inst"]] server_spec_eqI) (auto simp: frame_simps)
qed

lemma fail_waiters_instance:
  assumes "waiters_wf m"
  shows "hm_get (im_waiter_instance (fail_waiters i m)) c =
    (if hm_get (im_waiter_instance m) c = Some i then None else hm_get (im_waiter_instance m) c)"
  using assms by (simp only: fail_waiters_def Let_def fold_take_get fail_waiters_corrs waiters_wf_def)

lemma sim_fail:
  assumes "waiters_wf m"
  shows "spec_steps (spec_of m) (spec_of (fail_waiters i m))"
proof -
  have "pending_of (fail_waiters i m) c =
      (case pending_of m c of Some (k, j) \<Rightarrow> if j = i then None else Some (k, j) | None \<Rightarrow> None)" for c
    by (cases "hm_get (im_waiters m) c"; cases "hm_get (im_waiter_instance m) c")
      (auto simp: pending_of_def fail_waiters_get [OF assms] fail_waiters_instance [OF assms])
  then show ?thesis
    by (intro spec_stepI [OF sp_fail [of _ i]] server_spec_eqI) (simp_all add: frame_simps)
qed

lemma sim_remove_if:
  assumes "waiters_wf m"
  shows "spec_steps (spec_of m) (spec_of (remove_if i t m))"
  using rtranclp_trans [OF sim_drop_entry [of m i] sim_fail [OF waiters_wf_drop_entry [OF assms], of i i]]
  by (simp add: remove_if_halves)

lemma sim_dial:
  assumes "is_valid_instance_id (reg_instance_id reg)" and "token_room m"
  shows "spec_steps (spec_of m) (spec_of (snd (imap_insert reg QUEUE_CAPACITY tx (snd (mpsc_channel ch m)))))"
proof -
  have "unat (im_next_token m + 1) = Suc (unat (im_next_token m))"
    using assms(2) unatSuc [of "im_next_token m"] by (simp add: token_room_def add.commute add_eq_0_iff)
  moreover have "pending_of (snd (mpsc_channel ch m)) = pending_of m"
    by (simp add: fun_eq_iff pending_of_def mpsc_channel_def)
  moreover have "im_default_instance (snd (imap_insert reg QUEUE_CAPACITY tx (snd (mpsc_channel ch m)))) =
      im_default_instance m"
    by (simp add: imap_insert_def mpsc_channel_def Let_def)
  ultimately show ?thesis
    by (intro spec_stepI [OF sp_dial [OF assms(1)]] server_spec_eqI)
      (auto simp: inner_lookups frame_simps entry_of_def iq_new_def)
qed

lemma sim_recv:
  "spec_steps (spec_of m) (spec_of (snd (try_recv_inbound i m)))"
proof (cases "\<exists>inst msg q. hm_get (im_inner m) i = Some inst \<and> iq_items (inst_inbound inst) = msg # q")
  case True
  then obtain inst msg q where inst: "hm_get (im_inner m) i = Some inst" "iq_items (inst_inbound inst) = msg # q"
    by blast
  moreover have "pending_of (snd (try_recv_inbound i m)) = pending_of m"
    by (intro pending_of_same frame_simps)
  ultimately show ?thesis
    by (intro spec_stepI [OF sp_take [of _ i "entry_of inst" msg q]] server_spec_eqI)
      (auto simp: inner_lookups frame_simps entry_of_updates iq_try_recv_Cons)
next
  case False
  have "iq_try_recv (inst_inbound inst) = (None, inst_inbound inst)" if "hm_get (im_inner m) i = Some inst" for inst
    using False that by (cases "iq_items (inst_inbound inst)") (auto simp: iq_try_recv_Nil)
  then have "map_option entry_of (hm_get (im_inner (snd (try_recv_inbound i m))) j) =
      map_option entry_of (hm_get (im_inner m) j)" for j
    by (cases "hm_get (im_inner m) i") (auto simp: inner_lookups)
  then have "spec_of (snd (try_recv_inbound i m)) = spec_of m"
    by (intro spec_of_eqI) (auto simp: frame_simps intro: pending_of_same)
  then show ?thesis by simp
qed

lemma sim_register:
  "spec_steps (spec_of m) (spec_of (snd (register_waiter i c k m)))"
proof -
  have "pending_of (snd (register_waiter i c k m)) c' = (if c' = c then Some (k, i) else pending_of m c')" for c'
    by (simp add: pending_of_def register_waiter_view) (simp add: register_waiter_def Let_def)
  then show ?thesis
    by (intro spec_stepI [OF sp_ask [of _ c k i]] server_spec_eqI) (auto simp: frame_simps)
qed

lemma sim_take: "spec_steps (spec_of m) (spec_of (take_waiter c m))"
proof -
  have "pending_of (take_waiter c m) c' = (if c' = c then None else pending_of m c')" for c'
    by (simp add: pending_of_def take_waiter_get)
  then show ?thesis
    by (intro spec_stepI [OF sp_cancel [of _ c]] server_spec_eqI) (auto simp: frame_simps)
qed

lemma sim_default: "spec_steps (spec_of m) (spec_of (set_default_instance d m))"
proof -
  have "\<forall>j. im_default_instance (set_default_instance d m) = Some j \<longrightarrow> is_valid_instance_id j"
    by (auto simp: set_default_instance_def split: option.splits if_splits)
  from sp_default [OF this] show ?thesis
    by (rule spec_stepI) (auto intro!: server_spec_eqI simp: frame_simps pending_of_def set_default_instance_def)
qed

lemma sim_invisible:
  "spec_of (snd (next_corr m)) = spec_of m" "spec_of (snd (try_send ts i msg m)) = spec_of m"
  "spec_of (set_read_mask i ps m) = spec_of m" "spec_of (set_exclude_log_components i cs m) = spec_of m"
proof -
  have eq: "map_option entry_of (map_option (\<lambda>inst. inst\<lparr>inst_read_mask := ps\<rparr>) x) = map_option entry_of x"
    "map_option entry_of (map_option (\<lambda>inst. inst\<lparr>inst_exclude_log_components := cs\<rparr>) x) = map_option entry_of x" for x
    by (simp_all add: option.map_comp comp_def entry_of_updates)
  show "spec_of (snd (next_corr m)) = spec_of m" "spec_of (snd (try_send ts i msg m)) = spec_of m"
    "spec_of (set_read_mask i ps m) = spec_of m" "spec_of (set_exclude_log_components i cs m) = spec_of m"
    by (intro spec_of_eqI; auto simp: frame_simps inner_lookups eq)+
qed

lemma sim_tool_op: "tool_op ts m m' \<Longrightarrow> spec_steps (spec_of m) (spec_of m')"
  by (induction rule: tool_op.induct)
    (auto simp: sim_invisible intro: sim_recv sim_register sim_take sim_default)

lemma sim_item:
  assumes "session_item (\<lambda>m. m) i t item m = (go, m')" and "map_ok m"
  shows "spec_steps (spec_of m) (spec_of m')"
proof -
  have wf: "waiters_wf n" if "map_ok n" for n :: "'a imap" using that imap_wfD(2) by (auto simp: map_ok_def)
  have ok: "map_ok (push_inbound i msg n)" "map_ok (set_heartbeat i t hb n)" if "map_ok n"
    for msg hb and n :: "'a imap" using that by (auto simp: map_ok_def intro: wf_intros)
  show ?thesis
    using assms sim_push ok wf
    by (auto simp: session_item_def split: if_splits stream_item.splits option.splits sim_payload.splits
        intro!: rtranclp_trans [OF sim_heartbeat sim_push] rtranclp_trans [OF sim_push sim_remove_if])
qed

lemma sim_sys_step:
  "sys_step ts mk rv s s' \<Longrightarrow> map_ok (sys_map s) \<Longrightarrow> spec_steps (spec_of (sys_map s)) (spec_of (sys_map s'))"
proof (induction rule: sys_step.induct)
  case (ss_open first s i t tx m')
  then show ?case
    by (cases rule: session_open_cases [OF ss_open.hyps(1)]) (auto intro: sim_dial)
next
  case (ss_refuse first s e m')
  then show ?case by (cases rule: session_open_cases [OF ss_refuse.hyps]) auto
next
  case (ss_item i t s item m')
  with sim_item [OF ss_item.hyps(2)] show ?case by simp
next
  case (ss_stop i t s item m')
  have "waiters_wf m'"
    using item_same [OF ss_stop.hyps(2)] ss_stop.prems imap_wfD(2) by (auto simp: map_ok_def)
  from rtranclp_trans [OF sim_item [OF ss_stop.hyps(2) ss_stop.prems] sim_remove_if [OF this]]
  show ?case by simp
next
  case (ss_stream rx s r m')
  then have "spec_of m' = spec_of (sys_map s)"
    by (auto simp: outbound_next_def spec_of_def pending_of_def split: option.splits)
  then show ?case by simp
qed (auto simp: map_ok_def intro: sim_remove_if sim_push sim_heartbeat sim_drop_entry sim_fail sim_tool_op
    sim_complete sim_queue dest: imap_wfD(2))

interpretation srv: simulation "map_step ts mk rv" spec_step spec_of map_ok for ts mk rv
  by unfold_locales (auto simp: map_step_def intro: map_ok_step sim_sys_step)


subsection \<open>What the specification keeps\<close>

definition spec_ok :: "server_spec \<Rightarrow> bool" where
  "spec_ok t \<longleftrightarrow>
     (\<forall>i e. ssp_dir t i = Some e \<longrightarrow>
        reg_instance_id (se_register e) = i \<and> is_valid_instance_id i \<and>
        se_session e < ssp_sessions t \<and> length (se_inbox e) \<le> 128) \<and>
     (\<forall>i j e f. ssp_dir t i = Some e \<longrightarrow> ssp_dir t j = Some f \<longrightarrow> se_session e = se_session f \<longrightarrow> i = j) \<and>
     (\<forall>d. ssp_default t = Some d \<longrightarrow> is_valid_instance_id d)"

lemma spec_ok_init: "spec_ok spec_init"
  by (simp add: spec_ok_def spec_init_def)

lemma spec_ok_step: "spec_step t t' \<Longrightarrow> spec_ok t \<Longrightarrow> spec_ok t'"
proof (induction rule: spec_step.induct)
  case (sp_dial reg t)
  then show ?case by (fastforce simp: spec_ok_def)
next
  case (sp_deliver t i e msg q)
  then show ?case by (fastforce simp: spec_ok_def mailbox_step_def)
next
  case (sp_take t i e msg q)
  then show ?case by (fastforce simp: spec_ok_def)
qed (fastforce simp: spec_ok_def)+

lemma spec_ok_steps: "spec_steps t t' \<Longrightarrow> spec_ok t \<Longrightarrow> spec_ok t'"
  by (induction rule: rtranclp_induct) (auto intro: spec_ok_step)

text \<open>The past of an entry: a session is new, or it was there before, under the same id and with the same
  registration.\<close>

definition same_past :: "server_spec \<Rightarrow> server_spec \<Rightarrow> bool" where
  "same_past t t' \<longleftrightarrow>
     ssp_sessions t \<le> ssp_sessions t' \<and>
     (\<forall>i e'. ssp_dir t' i = Some e' \<longrightarrow> se_session e' < ssp_sessions t \<longrightarrow>
        (\<exists>e. ssp_dir t i = Some e \<and> se_session e = se_session e' \<and> se_register e = se_register e'))"

lemma same_pastD:
  "same_past t t' \<Longrightarrow> ssp_dir t' i = Some e' \<Longrightarrow> se_session e' < ssp_sessions t \<Longrightarrow>
   \<exists>e. ssp_dir t i = Some e \<and> se_session e = se_session e' \<and> se_register e = se_register e'"
  unfolding same_past_def by blast

lemma same_past_trans:
  assumes "same_past t u" and "same_past u v"
  shows "same_past t v"
proof -
  have le: "ssp_sessions t \<le> ssp_sessions u" "ssp_sessions u \<le> ssp_sessions v"
    using assms by (auto simp: same_past_def)
  have "\<exists>e. ssp_dir t i = Some e \<and> se_session e = se_session f \<and> se_register e = se_register f"
    if f: "ssp_dir v i = Some f" "se_session f < ssp_sessions t" for i f
  proof -
    have "se_session f < ssp_sessions u" using f(2) le(1) by simp
    then obtain e where "ssp_dir u i = Some e" "se_session e = se_session f" "se_register e = se_register f"
      using assms(2) f(1) unfolding same_past_def by blast
    with assms(1) f(2) show ?thesis unfolding same_past_def by metis
  qed
  with le show ?thesis by (auto simp: same_past_def)
qed

lemma same_past_step: "spec_step t t' \<Longrightarrow> same_past t t'"
  by (induction rule: spec_step.induct) (auto simp: same_past_def)

lemma same_past_steps: "spec_steps t t' \<Longrightarrow> same_past t t'"
  by (induction rule: rtranclp_induct)
    (auto intro: same_past_trans same_past_step, simp add: same_past_def)

subsection \<open>What the code shows of the specification\<close>

definition spec_resolve ::
    "string option \<Rightarrow> server_spec \<Rightarrow> resolve_error + (nat \<times> register \<times> heartbeat option)" where
  "spec_resolve sel t =
     (case (case sel of Some i \<Rightarrow> Some i | None \<Rightarrow> ssp_default t) of
        None \<Rightarrow> Inl EmptyId
      | Some i \<Rightarrow>
          if \<not> is_valid_instance_id i then Inl EmptyId
          else case ssp_dir t i of
            None \<Rightarrow> Inl UnknownInstance
          | Some e \<Rightarrow> Inr (se_session e, se_register e, se_beat e))"

definition view_of :: "instance_snapshot \<Rightarrow> nat \<times> register \<times> heartbeat option" where
  "view_of s = (unat (snap_token s), snap_register s, snap_last_heartbeat s)"

text \<open>The read operations of the map answer from the abstract state alone: resolving a target,
  looking an instance up, listing the ids, and what the next receive returns are functions of the
  specification; tokens, queues, masks, channels and table order have no influence.\<close>

lemma reads_see_the_spec:
  assumes "imap_wf m"
  shows "map_sum id view_of (resolve_or_default sel m) = spec_resolve sel (spec_of m) \<and>
    map_option view_of (inst_get i m) =
      map_option (\<lambda>e. (se_session e, se_register e, se_beat e)) (ssp_dir (spec_of m) i) \<and>
    set (list_ids m) = dom (ssp_dir (spec_of m)) \<and> distinct (list_ids m) \<and>
    fst (try_recv_inbound i m) =
      Option.bind (ssp_dir (spec_of m) i) (\<lambda>e. if se_inbox e = [] then None else Some (hd (se_inbox e)))"
proof (intro conjI)
  have view: "view_of (snapshot_of inst) = (unat (inst_token inst), inst_register inst, inst_last_heartbeat inst)"
    for inst by (simp add: view_of_def snapshot_of_def)
  show "map_sum id view_of (resolve_or_default sel m) = spec_resolve sel (spec_of m)"
    by (auto simp: resolve_or_default_def resolve_def spec_resolve_def default_instance_def inst_get_def view
        split: option.split)
  show "map_option view_of (inst_get i m) =
      map_option (\<lambda>e. (se_session e, se_register e, se_beat e)) (ssp_dir (spec_of m) i)"
    by (simp add: inst_get_def option.map_comp comp_def view)
  show "set (list_ids m) = dom (ssp_dir (spec_of m))"
    using hm_keys_iff [of _ "im_inner m"] by (auto simp: list_ids_def dom_def simp del: set_map)
  show "distinct (list_ids m)" using imap_wfD(1) [OF assms] by (simp add: list_ids_def hm_wf_def)
  show "fst (try_recv_inbound i m) =
      Option.bind (ssp_dir (spec_of m) i) (\<lambda>e. if se_inbox e = [] then None else Some (hd (se_inbox e)))"
    by (auto simp: try_recv_inbound_def iq_try_recv_def split: option.split list.split)
qed

lemma reads_see_the_spec_witness:
  "map_sum id view_of (resolve_or_default (Some ''a'') lone_instance) = spec_resolve (Some ''a'') (spec_of lone_instance) \<and>
   set (list_ids lone_instance) = {''a''}"
proof -
  have "dom (ssp_dir (spec_of lone_instance)) = {''a''}"
    by (auto simp: dom_def lone_instance_def imap_insert_def imap_new_def sample_register_def Let_def
        split: if_splits)
  with reads_see_the_spec [OF lone_instance_wf, of "Some ''a''"] show ?thesis by simp
qed

end
