(* ===== verification/Observe.thy ===== *)
theory Observe
  imports Session
begin

text \<open>
  The \<open>observe\<close> tool (\<open>crates/csm-proxy/src/mcp.rs\<close>): draining an instance's queue into JSON
  events, the until-conditions, and the polling loop that waits for one of them.

  A call takes the map's lock many times and the other tasks run in between. \<open>run_step\<close>
  counts the acquisitions of the call, and the parameter \<open>env\<close> gives, for each of them, what
  the other tasks did to the map before it. \<open>clk\<close> gives the readings of \<open>Instant::now()\<close> in
  milliseconds. \<open>enc\<close> is \<open>serde_json::to_value\<close> on the generated message types. The loops
  are \<open>partial_function\<close>s: a call that never returns has the value \<open>None\<close>.
\<close>

type_synonym 'ch env = "nat \<Rightarrow> 'ch imap \<Rightarrow> 'ch imap"

record 'ch run =
  run_map :: "'ch imap"
  run_step :: nat

definition locked :: "'ch env \<Rightarrow> ('ch imap \<Rightarrow> 'a \<times> 'ch imap) \<Rightarrow> 'ch run \<Rightarrow> 'a \<times> 'ch run" where
  "locked env f r =
     (let (a, m) = f (env (run_step r) (run_map r))
      in (a, \<lparr>run_map = m, run_step = Suc (run_step r)\<rparr>))"

definition peek :: "('ch imap \<Rightarrow> 'a) \<Rightarrow> 'ch imap \<Rightarrow> 'a \<times> 'ch imap" where
  "peek f m = (f m, m)"

lemma locked_eq:
  "locked env f r =
     (fst (f (env (run_step r) (run_map r))),
      \<lparr>run_map = snd (f (env (run_step r) (run_map r))), run_step = Suc (run_step r)\<rparr>)"
  by (simp add: locked_def split: prod.split)

lemma peek_sel [simp]: "fst (peek f m) = f m" "snd (peek f m) = m"
  by (simp_all add: peek_def)

subsection \<open>Resolving the target\<close>

definition id_required_text :: string where
  "id_required_text = ''instance_id is required (1-64 bytes) or set --default-instance''"

definition unknown_instance_text :: string where
  "unknown_instance_text = ''unknown instance''"

definition mcp_resolve :: "string option \<Rightarrow> 'ch imap \<Rightarrow> string + instance_snapshot" where
  "mcp_resolve sel m =
     (case resolve_or_default sel m of
        Inl EmptyId \<Rightarrow> Inl id_required_text
      | Inl UnknownInstance \<Rightarrow> Inl unknown_instance_text
      | Inr snap \<Rightarrow> Inr snap)"

subsection \<open>Until-conditions\<close>

definition json_log_text :: "json \<Rightarrow> string" where
  "json_log_text event =
     (case Option.bind (Option.bind (jget ''log'' event) (jget ''text'')) jas_str of
        None \<Rightarrow> [] | Some s \<Rightarrow> s)"

definition is_digit :: "char \<Rightarrow> bool" where
  "is_digit c \<longleftrightarrow> CHR ''0'' \<le> c \<and> c \<le> CHR ''9''"

definition digit_val :: "char \<Rightarrow> int" where
  "digit_val c = int (of_char c) - 48"

definition parse_nat_digits :: "string \<Rightarrow> int option" where
  "parse_nat_digits ds =
     (if ds \<noteq> [] \<and> list_all is_digit ds then Some (fold (\<lambda>c a. 10 * a + digit_val c) ds 0) else None)"

text \<open>\<open>str::parse::<i32>\<close>: an optional sign, at least one digit, and no overflow.\<close>

definition parse_i32 :: "string \<Rightarrow> i32 option" where
  "parse_i32 s =
     (let v = (case s of
                 [] \<Rightarrow> None
               | c # ds \<Rightarrow>
                   if c = CHR ''-'' then map_option uminus (parse_nat_digits ds)
                   else if c = CHR ''+'' then parse_nat_digits ds
                   else parse_nat_digits s)
      in Option.bind v (\<lambda>n. if - (2 ^ 31) \<le> n \<and> n < 2 ^ 31 then Some n else None))"

definition tagged_i32 :: "string \<Rightarrow> string \<Rightarrow> i32 option" where
  "tagged_i32 txt tag =
     Option.bind (iter_nth 1 (str_split tag txt))
       (\<lambda>rest. parse_i32 (takeWhile (\<lambda>c. is_digit c \<or> c = CHR ''-'') rest))"

definition observe_until_matched ::
    "string option \<Rightarrow> u64 option \<Rightarrow> string option \<Rightarrow> i32 option \<Rightarrow> json list \<Rightarrow>
     u64 option \<Rightarrow> string \<Rightarrow> i32 \<Rightarrow> bool" where
  "observe_until_matched until_log until_generation_gt until_activity until_progress_page
       events generation activity reader_page =
     (let (any0, hit0) = (False, False);
          (any1, hit1) =
            (case until_log of
               Some needle \<Rightarrow>
                 (True, if list_ex (\<lambda>event. str_contains (json_log_text event) needle) events
                        then True else hit0)
             | None \<Rightarrow> (any0, hit0));
          (any2, hit2) =
            (case until_generation_gt of
               Some floor_gen \<Rightarrow>
                 (True, if (case generation of Some g \<Rightarrow> floor_gen < g | None \<Rightarrow> False)
                        then True else hit1)
             | None \<Rightarrow> (any1, hit1));
          (any3, hit3) =
            (case until_activity of
               Some name \<Rightarrow>
                 (True, if activity = name \<or>
                           list_ex (\<lambda>event. str_contains (json_log_text event)
                                              (''Entering activity: '' @ name)) events
                        then True else hit2)
             | None \<Rightarrow> (any2, hit2));
          (any4, hit4) =
            (case until_progress_page of
               Some page \<Rightarrow>
                 (True, if reader_page = page \<or>
                           list_ex (\<lambda>event.
                             str_contains (json_log_text event) ''Progress saved:'' \<and>
                             tagged_i32 (json_log_text event) ''page='' = Some page) events
                        then True else hit3)
             | None \<Rightarrow> (any3, hit3))
      in \<not> any4 \<or> hit4)"

subsection \<open>Draining\<close>

record heartbeat_ui =
  ui_hb_generation :: "u64 option"
  ui_hb_activity :: string
  ui_hb_reader_spine :: i32
  ui_hb_reader_page :: i32

definition heartbeat_ui_of :: "string \<Rightarrow> 'ch imap \<Rightarrow> heartbeat_ui" where
  "heartbeat_ui_of iid m =
     (case Option.bind (inst_get iid m) snap_last_heartbeat of
        Some hb \<Rightarrow>
          \<lparr>ui_hb_generation = Some (hb_framebuffer_generation hb), ui_hb_activity = hb_activity hb,
           ui_hb_reader_spine = hb_reader_spine hb, ui_hb_reader_page = hb_reader_page hb\<rparr>
      | None \<Rightarrow>
          \<lparr>ui_hb_generation = None, ui_hb_activity = [], ui_hb_reader_spine = 0,
           ui_hb_reader_page = 0\<rparr>)"

definition event_of :: "(sim_to_server \<Rightarrow> json option) \<Rightarrow> sim_to_server \<Rightarrow> json" where
  "event_of enc msg = (case enc msg of Some j \<Rightarrow> j | None \<Rightarrow> JNull)"

partial_function (option) drain_loop ::
    "'ch env \<Rightarrow> (sim_to_server \<Rightarrow> json option) \<Rightarrow> string \<Rightarrow> string list \<Rightarrow> json list \<Rightarrow> 'ch run \<Rightarrow>
     (json list \<times> 'ch run) option" where
  "drain_loop env enc iid msk events r =
     (case locked env (try_recv_inbound iid) r of
        (None, r') \<Rightarrow> Some (events, r')
      | (Some msg, r') \<Rightarrow>
          drain_loop env enc iid msk
            (if inbound_visible msk msg then events @ [event_of enc msg] else events) r')"

declare drain_loop.simps [code]

definition drain_observe ::
    "'ch env \<Rightarrow> (sim_to_server \<Rightarrow> json option) \<Rightarrow> string option \<Rightarrow> 'ch run \<Rightarrow>
     ((string + string \<times> json list) \<times> 'ch run) option" where
  "drain_observe env enc sel r =
     (case locked env (peek (mcp_resolve sel)) r of
        (Inl e, r1) \<Rightarrow> Some (Inl e, r1)
      | (Inr snap, r1) \<Rightarrow>
          (let iid = reg_instance_id (snap_register snap);
               (paths, r2) = locked env (peek (read_mask iid)) r1;
               msk = (case paths of Some ps \<Rightarrow> ps | None \<Rightarrow> [])
           in Option.bind (drain_loop env enc iid msk [] r2)
                (\<lambda>(events, r3). Some (Inr (iid, events), r3))))"

definition observe_result ::
    "'ch env \<Rightarrow> string \<Rightarrow> json list \<Rightarrow> bool \<Rightarrow> bool \<Rightarrow> bool \<Rightarrow> 'ch run \<Rightarrow> json \<times> 'ch run" where
  "observe_result env iid events include_until matched timed_out r =
     (let (ui, r1) = locked env (peek (heartbeat_ui_of iid)) r;
          body = JObj [(''instanceId'', JStr iid),
                       (''events'', JArr events),
                       (''generation'', jopt (\<lambda>g. JNum (uint g)) (ui_hb_generation ui)),
                       (''activity'', JStr (ui_hb_activity ui)),
                       (''readerPage'', JNum (ui_hb_reader_page ui)),
                       (''readerSpine'', JNum (ui_hb_reader_spine ui))];
          body = (if include_until
                  then jset ''timedOut'' (JBool timed_out) (jset ''matched'' (JBool matched) body)
                  else body)
      in (body, r1))"

definition observe_json ::
    "'ch env \<Rightarrow> (sim_to_server \<Rightarrow> json option) \<Rightarrow> string option \<Rightarrow> 'ch run \<Rightarrow>
     ((string + json) \<times> 'ch run) option" where
  "observe_json env enc sel r =
     (case drain_observe env enc sel r of
        None \<Rightarrow> None
      | Some (Inl e, r1) \<Rightarrow> Some (Inl e, r1)
      | Some (Inr (iid, events), r1) \<Rightarrow>
          (let (body, r2) = observe_result env iid events False False False r1
           in Some (Inr body, r2)))"

subsection \<open>Waiting\<close>

record observe_spec =
  sp_wait_ms :: "nat option"
  sp_until_log :: "string option"
  sp_until_generation_gt :: "u64 option"
  sp_until_activity :: "string option"
  sp_until_progress_page :: "i32 option"

definition non_empty :: "string option \<Rightarrow> string option" where
  "non_empty s = (case s of Some t \<Rightarrow> if t = [] then None else Some t | None \<Rightarrow> None)"

text \<open>The loop polls at each pass; \<open>j\<close> numbers the clock readings, and a sleep of 25 ms lies
  between two of them.\<close>

partial_function (option) observe_loop ::
    "'ch env \<Rightarrow> (nat \<Rightarrow> nat) \<Rightarrow> (sim_to_server \<Rightarrow> json option) \<Rightarrow> string option \<Rightarrow> u64 option \<Rightarrow>
     string option \<Rightarrow> i32 option \<Rightarrow> bool \<Rightarrow> nat \<Rightarrow> string \<Rightarrow> nat \<Rightarrow> json list \<Rightarrow> 'ch run \<Rightarrow>
     ((string + json) \<times> 'ch run) option" where
  "observe_loop env clk enc until_log generation_floor until_activity until_page waiting deadline
       iid j events r =
     (let (ui, r1) = locked env (peek (heartbeat_ui_of iid)) r;
          matched = observe_until_matched until_log generation_floor until_activity until_page
                      events (ui_hb_generation ui) (ui_hb_activity ui) (ui_hb_reader_page ui);
          timed_out = (deadline \<le> clk j)
      in if waiting \<and> (matched \<or> timed_out) \<or> \<not> waiting \<and> timed_out
         then (let (body, r2) = observe_result env iid events waiting matched (waiting \<and> \<not> matched) r1
               in Some (Inr body, r2))
         else Option.bind (drain_observe env enc (Some iid) r1)
                (\<lambda>(res, r2). case res of
                   Inl e \<Rightarrow> Some (Inl e, r2)
                 | Inr (iid', newer) \<Rightarrow>
                     observe_loop env clk enc until_log generation_floor until_activity until_page
                       waiting deadline iid (Suc j) (events @ newer) r2))"

declare observe_loop.simps [code]

definition is_waiting :: "observe_spec \<Rightarrow> bool" where
  "is_waiting spec \<longleftrightarrow>
     non_empty (sp_until_log spec) \<noteq> None \<or> sp_until_generation_gt spec \<noteq> None \<or>
     non_empty (sp_until_activity spec) \<noteq> None \<or> sp_until_progress_page spec \<noteq> None"

definition timeout_ms :: "nat \<Rightarrow> observe_spec \<Rightarrow> nat" where
  "timeout_ms default_wait spec =
     (case sp_wait_ms spec of
        Some ms \<Rightarrow> ms
      | None \<Rightarrow> if is_waiting spec then default_wait else 0)"

definition observe_wait_json ::
    "'ch env \<Rightarrow> (nat \<Rightarrow> nat) \<Rightarrow> (sim_to_server \<Rightarrow> json option) \<Rightarrow> nat \<Rightarrow> string option \<Rightarrow>
     observe_spec \<Rightarrow> 'ch run \<Rightarrow> ((string + json) \<times> 'ch run) option" where
  "observe_wait_json env clk enc default_wait sel spec r =
     (case drain_observe env enc sel r of
        None \<Rightarrow> None
      | Some (Inl e, r1) \<Rightarrow> Some (Inl e, r1)
      | Some (Inr (iid, events), r1) \<Rightarrow>
          (let (generation_floor, r2) =
                 (if sp_until_generation_gt spec = Some 0
                  then (let (ui, r2) = locked env (peek (heartbeat_ui_of iid)) r1
                        in (Some (case ui_hb_generation ui of Some g \<Rightarrow> g | None \<Rightarrow> 0), r2))
                  else (sp_until_generation_gt spec, r1));
               deadline = clk 0 + timeout_ms default_wait spec
           in observe_loop env clk enc (non_empty (sp_until_log spec)) generation_floor
                (non_empty (sp_until_activity spec)) (sp_until_progress_page spec)
                (is_waiting spec) deadline iid 1 events r2))"

subsection \<open>Reading a number after a tag\<close>

text \<open>The decimal text of an integer, as the firmware and Rust's \<open>Display\<close> print it.\<close>

fun show_nat :: "nat \<Rightarrow> string" where
  "show_nat n = (if n < 10 then [char_of (48 + n)] else show_nat (n div 10) @ [char_of (48 + n mod 10)])"

declare show_nat.simps [simp del]

definition show_int :: "int \<Rightarrow> string" where
  "show_int n = (if n < 0 then CHR ''-'' # show_nat (nat (- n)) else show_nat (nat n))"

lemma digit_char:
  assumes "k < 10"
  shows "is_digit (char_of (48 + k))" and "digit_val (char_of (48 + k)) = int k"
proof -
  have "of_char (char_of (48 + k) :: char) = 48 + k" using assms by simp
  then show "is_digit (char_of (48 + k))" "digit_val (char_of (48 + k)) = int k"
    using assms by (simp_all add: is_digit_def digit_val_def less_eq_char_def)
qed

lemma show_nat_digits: "show_nat n \<noteq> [] \<and> list_all is_digit (show_nat n)"
  by (induction n rule: show_nat.induct) (subst (1 2) show_nat.simps, simp add: digit_char)

lemma parse_show_nat: "parse_nat_digits (show_nat n) = Some (int n)"
proof -
  have "fold (\<lambda>c a. 10 * a + digit_val c) (show_nat n) 0 = int n"
  proof (induction n rule: show_nat.induct)
    case (1 n)
    then show ?case
      by (subst show_nat.simps) (auto simp: digit_char zdiv_int zmod_int)
  qed
  with show_nat_digits [of n] show ?thesis by (simp add: parse_nat_digits_def)
qed

lemma not_digit: "\<not> is_digit (CHR ''-'')" "\<not> is_digit (CHR ''+'')" "\<not> is_digit (CHR ''p'')"
  by (simp_all add: is_digit_def less_eq_char_def)

lemma parse_show_int:
  assumes "- (2 ^ 31) \<le> n" and "n < 2 ^ 31"
  shows "parse_i32 (show_int n) = Some n"
proof (cases "n < 0")
  case True
  with assms show ?thesis by (simp add: parse_i32_def show_int_def parse_show_nat)
next
  case False
  obtain c ds where s: "show_nat (nat n) = c # ds" using show_nat_digits by (meson list.exhaust)
  then have "is_digit c" using show_nat_digits [of "nat n"] by simp
  with not_digit have "c \<noteq> CHR ''-''" "c \<noteq> CHR ''+''" by auto
  with False assms s parse_show_nat [of "nat n"] show ?thesis
    by (simp add: parse_i32_def show_int_def)
qed

definition page_char :: "char \<Rightarrow> bool" where
  "page_char c \<longleftrightarrow> is_digit c \<or> c = CHR ''-''"

lemma show_int_page_chars: "list_all page_char (show_int n)"
  using show_nat_digits by (auto simp: show_int_def page_char_def list_all_iff)

lemma page_tag_first:
  assumes "\<not> sublist ''page='' pre"
  shows "split_first ''page='' (pre @ ''page='' @ rest) = Some (pre, rest)"
  using assms
proof (induction pre)
  case Nil
  show ?case by (subst split_first.simps) simp
next
  case (Cons c cs)
  have overlap: "prefix ''page='' (c # cs)" if "prefix ''page='' ((c # cs) @ ''page='' @ rest)"
  proof (cases "length (c # cs) < 5")
    case True
    then consider "cs = []" | d where "cs = [d]" | d e where "cs = [d, e]"
      | d e f where "cs = [d, e, f]"
      by (auto simp: less_Suc_eq length_Suc_conv numeral_eq_Suc)
    then show ?thesis using that by cases simp_all
  next
    case False
    then show ?thesis
      by (intro prefix_length_prefix [OF that prefixI [OF refl]]) simp
  qed
  have "\<not> prefix ''page='' (c # cs)" using Cons.prems prefix_imp_sublist by blast
  with overlap have "strip_prefix ''page='' ((c # cs) @ ''page='' @ rest) = None"
    by (simp only: strip_prefix_None_iff) blast
  moreover have "\<not> sublist ''page='' cs" using Cons.prems by (simp add: sublist_Cons_right)
  ultimately show ?case
    using Cons.IH by (subst split_first.simps) simp
qed

lemma takeWhile_before_tag:
  assumes "\<not> P (CHR ''p'')"
  shows "takeWhile P (hd (str_split ''page='' s)) = takeWhile P s"
proof (cases "split_first ''page='' s")
  case None
  then show ?thesis by (subst str_split.simps) simp
next
  case (Some ab)
  then obtain a b where ab: "split_first ''page='' s = Some (a, b)" by (cases ab) auto
  then have "s = a @ ''page='' @ b" by (rule split_first_Some)
  with ab assms show ?thesis
    by (subst str_split.simps) (simp add: takeWhile_append)
qed

text \<open>C32. The page number of a progress line is read back: for every 32-bit integer \<open>n\<close>, a text in
  which the first \<open>page=\<close> is followed by the decimal form of \<open>n\<close> and then by nothing that
  continues a number yields \<open>n\<close>; and a text without the tag yields nothing.\<close>

theorem progress_page_roundtrip:
  assumes "- (2 ^ 31) \<le> n" and "n < 2 ^ 31" and "\<not> str_contains pre ''page=''"
    and "suf = [] \<or> \<not> is_digit (hd suf) \<and> hd suf \<noteq> CHR ''-''"
  shows "tagged_i32 (pre @ ''page='' @ show_int n @ suf) ''page='' = Some n \<and>
    tagged_i32 pre ''page='' = None"
proof
  have "takeWhile page_char (show_int n @ suf) = show_int n"
    using show_int_page_chars [of n] assms(4)
    by (cases suf) (auto simp: takeWhile_append page_char_def list_all_iff)
  then have "takeWhile page_char (hd (str_split ''page='' (show_int n @ suf))) = show_int n"
    by (simp add: takeWhile_before_tag page_char_def not_digit)
  with assms show "tagged_i32 (pre @ ''page='' @ show_int n @ suf) ''page='' = Some n"
    using page_tag_first [of pre "show_int n @ suf"]
    by (simp add: tagged_i32_def str_split_second str_contains_def parse_show_int
        flip: page_char_def del: One_nat_def)
  show "tagged_i32 pre ''page='' = None"
    using assms(3)
    by (simp add: tagged_i32_def str_split_second str_contains_def split_first_None_iff [symmetric]
        del: One_nat_def)
qed

theorem progress_page_roundtrip_witness:
  "tagged_i32 (''Progress saved: spine=3 '' @ ''page='' @ show_int (- 7) @ '' of 20'') ''page='' = Some (- 7)"
  using progress_page_roundtrip [of "- 7" "''Progress saved: spine=3 ''" "'' of 20''"]
  by (simp add: str_contains_def sublist_Cons_right is_digit_def less_eq_char_def)

text \<open>A wait is over exactly when no condition was given or one of them holds: the text of a
  drained log contains the needle, the last heartbeat's generation exceeds the floor, the
  activity is the one named (in the heartbeat, or entered in a log), or the page is the one
  named (in the heartbeat, or after \<open>page=\<close> in a progress log).\<close>

lemma until_conditions:
  "observe_until_matched ul ug ua up events g a p \<longleftrightarrow>
     (ul = None \<and> ug = None \<and> ua = None \<and> up = None) \<or>
     (\<exists>needle. ul = Some needle \<and> (\<exists>e \<in> set events. sublist needle (json_log_text e))) \<or>
     (\<exists>floor_gen now. ug = Some floor_gen \<and> g = Some now \<and> floor_gen < now) \<or>
     (\<exists>name. ua = Some name \<and> (a = name \<or>
        (\<exists>e \<in> set events. sublist (''Entering activity: '' @ name) (json_log_text e)))) \<or>
     (\<exists>page. up = Some page \<and> (p = page \<or>
        (\<exists>e \<in> set events. sublist ''Progress saved:'' (json_log_text e) \<and>
           tagged_i32 (json_log_text e) ''page='' = Some page)))"
  unfolding observe_until_matched_def str_contains_def list_ex_iff
  by (cases ul; cases ug; cases ua; cases up; cases g) (simp_all add: Let_def split del: if_split, auto)


subsection \<open>An undisturbed drain\<close>

lemma try_recv_inbound_get:
  assumes "hm_get (im_inner m) i = Some inst"
  shows "fst (try_recv_inbound i m) = fst (iq_try_recv (inst_inbound inst))"
  using assms by (simp add: try_recv_inbound_def split: prod.split)

lemma drain_loop_quiet:
  assumes "hm_get (im_inner (run_map r)) i = Some inst"
  shows "\<exists>r'. drain_loop (\<lambda>_ m. m) enc i msk events r =
      Some (events @ map (event_of enc) (filter (inbound_visible msk) (iq_items (inst_inbound inst))), r') \<and>
    hm_get (im_inner (run_map r')) =
      (hm_get (im_inner (run_map r)))(i \<mapsto> inst\<lparr>inst_inbound := (inst_inbound inst)\<lparr>iq_items := []\<rparr>\<rparr>)"
  using assms
proof (induction "iq_items (inst_inbound inst)" arbitrary: inst r events)
  case Nil
  then show ?case
    by (subst drain_loop.simps)
      (auto simp: locked_eq try_recv_inbound_get iq_try_recv_def fun_eq_iff try_recv_inbound_inner)
next
  case (Cons x xs)
  let ?inst = "inst\<lparr>inst_inbound := (inst_inbound inst)\<lparr>iq_items := xs\<rparr>\<rparr>"
  let ?m = "snd (try_recv_inbound i (run_map r))"
  let ?events = "if inbound_visible msk x then events @ [event_of enc x] else events"
  have m: "hm_get (im_inner ?m) = (hm_get (im_inner (run_map r)))(i \<mapsto> ?inst)"
    using Cons.prems Cons.hyps(2) [symmetric]
    by (auto simp: fun_eq_iff try_recv_inbound_inner iq_try_recv_def)
  have step: "drain_loop (\<lambda>_ m. m) enc i msk events r =
      drain_loop (\<lambda>_ m. m) enc i msk ?events \<lparr>run_map = ?m, run_step = Suc (run_step r)\<rparr>"
    using Cons.prems Cons.hyps(2) [symmetric]
    by (subst drain_loop.simps) (simp add: locked_eq try_recv_inbound_get iq_try_recv_def)
  show ?case
    using Cons.hyps(1) [of ?inst "\<lparr>run_map = ?m, run_step = Suc (run_step r)\<rparr>" ?events] m
      Cons.hyps(2) [symmetric]
    by (simp add: step split del: if_split) (auto split: if_split)
qed

lemma mcp_resolve_InrD:
  assumes "mcp_resolve sel m = Inr snap" and "imap_wf m"
  obtains i inst where "hm_get (im_inner m) i = Some inst" and "snap = snapshot_of inst"
    and "reg_instance_id (snap_register snap) = i" and "is_valid_instance_id i"
proof -
  obtain i where i: "inst_get i m = Some snap" "is_valid_instance_id i"
    using assms(1) by (auto simp: mcp_resolve_def resolve_or_default_def resolve_def
        split: option.splits sum.splits resolve_error.splits if_splits)
  then obtain inst where "hm_get (im_inner m) i = Some inst" "snap = snapshot_of inst"
    by (auto simp: inst_get_def)
  with i imap_wfD(3) [OF assms(2)] show ?thesis
    by (intro that [of i inst]) (auto simp: entry_wf_def snapshot_of_def)
qed

text \<open>C23. An undisturbed observe reports the queue exactly: when the call resolves to an instance, the
  events are the JSON of its queued messages that its session view shows, each once and in
  arrival order, the queue is empty afterwards, and every other instance is untouched.\<close>

theorem observe_reports_the_queue:
  assumes "mcp_resolve sel (run_map r) = Inr snap" and "imap_wf (run_map r)"
  shows "\<exists>i inst r'. hm_get (im_inner (run_map r)) i = Some inst \<and> snap = snapshot_of inst \<and>
    drain_observe (\<lambda>_ m. m) enc sel r =
      Some (Inr (i, map (event_of enc)
        (filter (inbound_visible (inst_read_mask inst)) (iq_items (inst_inbound inst)))), r') \<and>
    hm_get (im_inner (run_map r')) = (hm_get (im_inner (run_map r)))
      (i \<mapsto> inst\<lparr>inst_inbound := (inst_inbound inst)\<lparr>iq_items := []\<rparr>\<rparr>)"
proof -
  obtain i inst where i: "hm_get (im_inner (run_map r)) i = Some inst" "snap = snapshot_of inst"
      "reg_instance_id (snap_register snap) = i"
    using mcp_resolve_InrD [OF assms] by blast
  let ?r = "\<lparr>run_map = run_map r, run_step = Suc (Suc (run_step r))\<rparr>"
  from drain_loop_quiet [of ?r i inst enc "inst_read_mask inst" "[]"] i(1)
  obtain r' where "drain_loop (\<lambda>_ m. m) enc i (inst_read_mask inst) [] ?r =
      Some (map (event_of enc) (filter (inbound_visible (inst_read_mask inst))
        (iq_items (inst_inbound inst))), r')"
    and "hm_get (im_inner (run_map r')) = (hm_get (im_inner (run_map r)))
      (i \<mapsto> inst\<lparr>inst_inbound := (inst_inbound inst)\<lparr>iq_items := []\<rparr>\<rparr>)" by auto
  with i assms(1) show ?thesis
    by (intro exI [of _ i] exI [of _ inst] exI [of _ r'])
      (simp add: drain_observe_def locked_eq read_mask_def fun_upd_def)
qed


lemma lone_instance_queue:
  "\<exists>inst. hm_get (im_inner lone_instance) ''a'' = Some inst \<and> iq_items (inst_inbound inst) = [] \<and>
     inst_read_mask inst = []"
  by (simp add: lone_instance_def imap_insert_inner iq_new_def)

lemma lone_instance_resolve: "mcp_resolve (Some ''a'') lone_instance = Inr lone_snapshot"
  by (simp add: mcp_resolve_def resolve_or_default_def resolve_def is_valid_instance_id_def
      INSTANCE_ID_MAX_LEN_def lone_instance_lookups)

definition logging_run :: "server_to_sim list run" where
  "logging_run =
     \<lparr>run_map = push_inbound ''a'' (envelope 1 0 (Log (sample_log ''ui'' ''Ready''))) lone_instance,
      run_step = 0\<rparr>"

definition text_enc :: "sim_to_server \<Rightarrow> json option" where
  "text_enc msg =
     (case payload msg of
        Some (Log l) \<Rightarrow> Some (JObj [(''log'', JObj [(''text'', JStr (log_text l))])])
      | _ \<Rightarrow> Some (JObj []))"

lemma logging_run_facts:
  "imap_wf (run_map logging_run)" "mcp_resolve (Some ''a'') (run_map logging_run) = Inr lone_snapshot"
  "\<exists>inst. hm_get (im_inner (run_map logging_run)) ''a'' = Some inst \<and> inst_read_mask inst = [] \<and>
     iq_items (inst_inbound inst) = [envelope 1 0 (Log (sample_log ''ui'' ''Ready''))]"
  by (simp_all add: logging_run_def imap_wf_push lone_instance_wf)
    (simp_all add: mcp_resolve_def resolve_or_default_def resolve_def is_valid_instance_id_def
      INSTANCE_ID_MAX_LEN_def inst_get_def push_inbound_inner lone_instance_def imap_insert_inner
      snapshot_of_def lone_snapshot_def inbound_visible_def excluded_log_def iq_push_def iq_new_def
      imap_new_def)

theorem observe_reports_the_queue_witness:
  "\<exists>r'. drain_observe (\<lambda>_ m. m) text_enc (Some ''a'') logging_run =
     Some (Inr (''a'', [JObj [(''log'', JObj [(''text'', JStr ''Ready'')])]]), r')"
proof -
  obtain i inst r' where "hm_get (im_inner (run_map logging_run)) i = Some inst"
    and "lone_snapshot = snapshot_of inst"
    and d: "drain_observe (\<lambda>_ m. m) text_enc (Some ''a'') logging_run =
      Some (Inr (i, map (event_of text_enc)
        (filter (inbound_visible (inst_read_mask inst)) (iq_items (inst_inbound inst)))), r')"
    using observe_reports_the_queue [OF logging_run_facts(2,1), of text_enc] by blast
  moreover have "reg_instance_id (snap_register (snapshot_of inst)) = i"
    using imap_wfD(3) [OF logging_run_facts(1) calculation(1)]
    by (simp add: entry_wf_def snapshot_of_def)
  then have "i = ''a''" using calculation(2) [symmetric] by (simp add: lone_snapshot_def)
  ultimately show ?thesis
    using logging_run_facts(3)
    by (auto simp: event_of_def text_enc_def inbound_visible_def inbound_payload_name_def)
qed


subsection \<open>Every wait ends\<close>

text \<open>What the other tasks may do before an acquisition: any steps of the process.\<close>

definition env_ok ::
    "'ch try_send_fn \<Rightarrow> (nat \<Rightarrow> 'ch) \<Rightarrow> ('ch \<Rightarrow> (server_to_sim \<times> 'ch) option) \<Rightarrow> 'ch env \<Rightarrow> bool" where
  "env_ok ts mk rv env \<longleftrightarrow> (\<forall>n m. (map_step ts mk rv)\<^sup>*\<^sup>* m (env n m))"

definition backlog :: "string \<Rightarrow> 'ch imap \<Rightarrow> nat" where
  "backlog i m = (case hm_get (im_inner m) i of None \<Rightarrow> 0 | Some inst \<Rightarrow> length (iq_items (inst_inbound inst)))"

text \<open>A simulator that never stops sending could keep a drain busy for ever. \<open>pauses\<close> says that
  again and again there are 129 acquisitions in a row before which nothing was queued for the
  instance; \<open>sleeps\<close> that readings of the clock are at least the loop's sleep apart.\<close>

definition pauses :: "'ch env \<Rightarrow> string \<Rightarrow> bool" where
  "pauses env i \<longleftrightarrow> (\<forall>n. \<exists>N\<ge>n. \<forall>k. N \<le> k \<and> k \<le> N + QUEUE_CAPACITY \<longrightarrow>
     (\<forall>m. backlog i (env k m) \<le> backlog i m))"

definition sleeps :: "(nat \<Rightarrow> nat) \<Rightarrow> bool" where
  "sleeps clk \<longleftrightarrow> clk 0 \<le> clk 1 \<and> (\<forall>j\<ge>1. clk j + 25 \<le> clk (Suc j))"

lemma map_ok_env: "env_ok ts mk rv env \<Longrightarrow> map_ok m \<Longrightarrow> map_ok (env n m)"
  unfolding env_ok_def by (meson map_steps_ok)

lemma map_ok_recv: "map_ok m \<Longrightarrow> map_ok (snd (try_recv_inbound i m))"
  by (auto simp: map_ok_def intro: wf_intros)

lemma backlog_bound: "map_ok m \<Longrightarrow> backlog i m \<le> QUEUE_CAPACITY"
  by (auto simp: backlog_def map_ok_def caps_wf_def entry_wf_def iq_wf_def
      dest!: imap_wfD(3) split: option.split)

lemma recv_backlog:
  assumes "fst (try_recv_inbound i m) = Some msg"
  shows "backlog i m = Suc (backlog i (snd (try_recv_inbound i m)))"
  using assms
  by (auto simp: backlog_def try_recv_inbound_def iq_try_recv_def split: option.splits prod.splits list.splits)

lemma drain_loop_quiet_window:
  assumes ok: "env_ok ts mk rv env" "map_ok (run_map r)"
    and quiet: "\<And>k m. N \<le> k \<Longrightarrow> k \<le> N + QUEUE_CAPACITY \<Longrightarrow> backlog i (env k m) \<le> backlog i m"
    and "N \<le> run_step r" and "run_step r + backlog i (run_map r) \<le> N + QUEUE_CAPACITY"
  shows "\<exists>events' r'. drain_loop env enc i msk events r = Some (events', r') \<and> map_ok (run_map r')"
  using assms(2,4,5)
proof (induction "backlog i (run_map r)" arbitrary: r events rule: less_induct)
  case less
  let ?m = "env (run_step r) (run_map r)"
  let ?r = "\<lparr>run_map = snd (try_recv_inbound i ?m), run_step = Suc (run_step r)\<rparr>"
  have ok': "map_ok (run_map ?r)"
    using map_ok_env [OF ok(1) less.prems(1)] by (simp add: map_ok_recv)
  show ?case
  proof (cases "fst (try_recv_inbound i ?m)")
    case None
    then show ?thesis using ok' by (subst drain_loop.simps) (simp add: locked_eq)
  next
    case (Some msg)
    have "backlog i ?m \<le> backlog i (run_map r)" using quiet less.prems(2,3) by simp
    with recv_backlog [OF Some] have smaller: "Suc (backlog i (run_map ?r)) \<le> backlog i (run_map r)"
      by simp
    from less.hyps [of ?r] smaller ok' less.prems(2,3) Some show ?thesis
      by (subst drain_loop.simps) (simp add: locked_eq split del: if_split)
  qed
qed

lemma drain_loop_returns:
  assumes ok: "env_ok ts mk rv env" "map_ok (run_map r)" and "pauses env i"
  shows "\<exists>events' r'. drain_loop env enc i msk events r = Some (events', r') \<and> map_ok (run_map r')"
proof -
  obtain N where N: "run_step r \<le> N"
    and quiet: "\<And>k m. N \<le> k \<Longrightarrow> k \<le> N + QUEUE_CAPACITY \<Longrightarrow> backlog i (env k m) \<le> backlog i m"
    using assms(3) unfolding pauses_def by blast
  from N ok(2) show ?thesis
  proof (induction "N - run_step r" arbitrary: r events)
    case 0
    then have "N \<le> run_step r" "run_step r + backlog i (run_map r) \<le> N + QUEUE_CAPACITY"
      using backlog_bound [of "run_map r" i] by simp_all
    with drain_loop_quiet_window [OF ok(1) _ quiet] 0 show ?case by blast
  next
    case (Suc d)
    let ?m = "env (run_step r) (run_map r)"
    let ?r = "\<lparr>run_map = snd (try_recv_inbound i ?m), run_step = Suc (run_step r)\<rparr>"
    have "map_ok (run_map ?r)"
      using map_ok_env [OF ok(1) Suc.prems(2)] by (simp add: map_ok_recv)
    with Suc.hyps(1) [of ?r] Suc.hyps(2) Suc.prems show ?case
      by (subst drain_loop.simps) (auto simp: locked_eq split del: if_split split: option.split)
  qed
qed

lemma drain_observe_returns:
  assumes ok: "env_ok ts mk rv env" "map_ok (run_map r)" and "\<And>i. pauses env i"
  shows "\<exists>res r'. drain_observe env enc sel r = Some (res, r') \<and> map_ok (run_map r') \<and>
    (\<forall>e. res = Inl e \<longrightarrow> e = id_required_text \<or> e = unknown_instance_text)"
proof -
  let ?m = "env (run_step r) (run_map r)"
  have m: "map_ok ?m" by (rule map_ok_env [OF ok])
  show ?thesis
  proof (cases "mcp_resolve sel ?m")
    case (Inl e)
    then show ?thesis
      using m by (auto simp: drain_observe_def locked_eq mcp_resolve_def
          split: sum.splits resolve_error.splits)
  next
    case (Inr snap)
    let ?i = "reg_instance_id (snap_register snap)"
    let ?r = "\<lparr>run_map = env (Suc (run_step r)) ?m, run_step = Suc (Suc (run_step r))\<rparr>"
    let ?msk = "case read_mask ?i (run_map ?r) of Some ps \<Rightarrow> ps | None \<Rightarrow> []"
    have "map_ok (run_map ?r)" using map_ok_env [OF ok(1) m] by simp
    from drain_loop_returns [OF ok(1) this assms(3) [of ?i], of enc ?msk "[]"]
    obtain events r' where "drain_loop env enc ?i ?msk [] ?r = Some (events, r')"
      and "map_ok (run_map r')" by blast
    then show ?thesis using Inr by (auto simp: drain_observe_def locked_eq)
  qed
qed


lemma observe_result_body:
  "jget ''matched'' (fst (observe_result env i events inc matched late r)) =
     (if inc then Some (JBool matched) else None)"
  "jget ''timedOut'' (fst (observe_result env i events inc matched late r)) =
     (if inc then Some (JBool late) else None)"
  "jget ''instanceId'' (fst (observe_result env i events inc matched late r)) = Some (JStr i)"
  "jget ''events'' (fst (observe_result env i events inc matched late r)) = Some (JArr events)"
  by (simp_all add: observe_result_def locked_eq Let_def update_conv')

lemma observe_result_run:
  "snd (observe_result env i events inc matched late r) =
     \<lparr>run_map = env (run_step r) (run_map r), run_step = Suc (run_step r)\<rparr>"
  by (simp add: observe_result_def locked_eq Let_def)

text \<open>What a finished wait says: both flags when a condition was given, exactly one of them true;
  neither flag otherwise.\<close>

definition wait_verdict :: "bool \<Rightarrow> string + json \<Rightarrow> bool" where
  "wait_verdict waiting res \<longleftrightarrow>
     (case res of
        Inl e \<Rightarrow> e = id_required_text \<or> e = unknown_instance_text
      | Inr body \<Rightarrow>
          if waiting
          then (\<exists>b. jget ''matched'' body = Some (JBool b) \<and> jget ''timedOut'' body = Some (JBool (\<not> b)))
          else jget ''matched'' body = None \<and> jget ''timedOut'' body = None)"

text \<open>One pass of the loop, in the two cases.\<close>

definition pass_run :: "'ch env \<Rightarrow> 'ch run \<Rightarrow> 'ch run" where
  "pass_run env r = \<lparr>run_map = env (run_step r) (run_map r), run_step = Suc (run_step r)\<rparr>"

definition pass_match ::
    "string option \<Rightarrow> u64 option \<Rightarrow> string option \<Rightarrow> i32 option \<Rightarrow> json list \<Rightarrow> string \<Rightarrow> 'ch imap \<Rightarrow> bool"
  where
  "pass_match ul gf ua up events i m =
     (let ui = heartbeat_ui_of i m
      in observe_until_matched ul gf ua up events (ui_hb_generation ui) (ui_hb_activity ui)
           (ui_hb_reader_page ui))"

lemma observe_loop_stop:
  assumes "waiting \<and> pass_match ul gf ua up events i (run_map (pass_run env r)) \<or> deadline \<le> clk j"
  shows "observe_loop env clk enc ul gf ua up waiting deadline i j events r =
    (let matched = pass_match ul gf ua up events i (run_map (pass_run env r));
         res = observe_result env i events waiting matched (waiting \<and> \<not> matched) (pass_run env r)
     in Some (Inr (fst res), snd res))"
  using assms
  by (subst observe_loop.simps) (auto simp: locked_eq pass_run_def pass_match_def Let_def split: prod.split)

lemma observe_loop_again:
  assumes "\<not> (waiting \<and> pass_match ul gf ua up events i (run_map (pass_run env r)) \<or> deadline \<le> clk j)"
  shows "observe_loop env clk enc ul gf ua up waiting deadline i j events r =
    (case drain_observe env enc (Some i) (pass_run env r) of
       None \<Rightarrow> None
     | Some (Inl e, r2) \<Rightarrow> Some (Inl e, r2)
     | Some (Inr (i', newer), r2) \<Rightarrow>
         observe_loop env clk enc ul gf ua up waiting deadline i (Suc j) (events @ newer) r2)"
  using assms
  by (subst observe_loop.simps, cases waiting)
    (simp_all add: locked_eq pass_run_def pass_match_def Let_def split: option.split prod.split sum.split)

lemma observe_loop_returns:
  assumes ok: "env_ok ts mk rv env" and clock: "sleeps clk" and calm: "\<And>i. pauses env i"
    and "map_ok (run_map r)" and "1 \<le> j"
  shows "\<exists>res r'. observe_loop env clk enc ul gf ua up waiting deadline i j events r = Some (res, r') \<and>
    wait_verdict waiting res"
  using assms(4,5)
proof (induction "deadline - clk j" arbitrary: j r events rule: less_induct)
  case less
  show ?case
  proof (cases "waiting \<and> pass_match ul gf ua up events i (run_map (pass_run env r)) \<or> deadline \<le> clk j")
    case True
    then show ?thesis
      unfolding observe_loop_stop [where clk = clk and j = j, OF True] by (simp add: Let_def wait_verdict_def observe_result_body)
  next
    case False
    have "map_ok (run_map (pass_run env r))"
      using map_ok_env [OF ok less.prems(1)] by (simp add: pass_run_def)
    from drain_observe_returns [OF ok this calm, of enc "Some i"]
    obtain res r2 where d: "drain_observe env enc (Some i) (pass_run env r) = Some (res, r2)"
      and r2: "map_ok (run_map r2)" "\<And>e. res = Inl e \<Longrightarrow> e = id_required_text \<or> e = unknown_instance_text"
      by blast
    show ?thesis
    proof (cases res)
      case (Inl e)
      with d r2(2) show ?thesis unfolding observe_loop_again [where clk = clk and j = j, OF False] by (simp add: wait_verdict_def)
    next
      case (Inr found)
      obtain i' newer where found: "found = (i', newer)" by fastforce
      have "clk j < deadline" "clk j + 25 \<le> clk (Suc j)"
        using False clock less.prems(2) by (auto simp: sleeps_def)
      then have "deadline - clk (Suc j) < deadline - clk j" by simp
      from less.hyps [OF this r2(1), of "events @ newer"] Inr found d show ?thesis
        unfolding observe_loop_again [where clk = clk and j = j, OF False] by simp
    qed
  qed
qed



definition steady_clock :: "nat \<Rightarrow> nat" where
  "steady_clock j = 25 * j"

definition log_wait :: "string \<Rightarrow> observe_spec" where
  "log_wait needle =
     \<lparr>sp_wait_ms = Some 100, sp_until_log = Some needle, sp_until_generation_gt = None,
      sp_until_activity = None, sp_until_progress_page = None\<rparr>"

lemma first_session_map_ok: "map_ok (sys_map first_session)"
  using sys_reachable_inv [OF first_session_reachable] by (simp add: map_ok_def sys_inv_def)


text \<open>Without a condition and without a wait, the waiting form of observe is the one-shot drain:
  empty strings count as no condition, and the answers are the same.\<close>

lemma unconditional_wait_is_a_drain:
  assumes "non_empty (sp_until_log spec) = None" and "non_empty (sp_until_activity spec) = None"
    and "sp_until_generation_gt spec = None" and "sp_until_progress_page spec = None"
    and "sp_wait_ms spec = None \<or> sp_wait_ms spec = Some 0" and "clk 0 \<le> clk 1"
  shows "map_option fst (observe_wait_json (\<lambda>_ m. m) clk enc dflt sel spec r) =
    map_option fst (observe_json (\<lambda>_ m. m) enc sel r)"
proof -
  have none: "\<not> is_waiting spec" "timeout_ms dflt spec = 0"
    using assms by (auto simp: is_waiting_def timeout_ms_def)
  show ?thesis
  proof (cases "drain_observe (\<lambda>_ m. m) enc sel r")
    case (Some p)
    obtain res r1 where p: "p = (res, r1)" by fastforce
    show ?thesis
    proof (cases res)
      case (Inr found)
      obtain i events where "found = (i, events)" by fastforce
      with Some p Inr none assms
        observe_loop_stop [where clk = clk and j = 1 and waiting = False and deadline = "clk 0"
          and env = "\<lambda>_ m. m" and r = r1 and enc = enc and i = i and events = events
          and ul = None and gf = None and ua = None and up = None]
      show ?thesis
        by (simp add: observe_wait_json_def observe_json_def Let_def observe_result_def locked_eq
            pass_run_def del: One_nat_def)
    qed (simp add: Some p observe_wait_json_def observe_json_def)
  qed (simp add: observe_wait_json_def observe_json_def)
qed

lemma unconditional_wait_is_a_drain_witness:
  "map_option fst (observe_wait_json (\<lambda>_ m. m) steady_clock text_enc 8000 (Some ''a'')
      ((log_wait [])\<lparr>sp_wait_ms := None\<rparr>) logging_run) =
    map_option fst (observe_json (\<lambda>_ m. m) text_enc (Some ''a'') logging_run)"
  using unconditional_wait_is_a_drain [of "(log_wait [])\<lparr>sp_wait_ms := None\<rparr>" steady_clock text_enc 8000
      "Some ''a''" logging_run]
  by (simp add: log_wait_def non_empty_def steady_clock_def)

lemma recv_keeps_ui: "heartbeat_ui_of i (snd (try_recv_inbound j m)) = heartbeat_ui_of i m"
  by (cases "hm_get (im_inner m) j")
    (auto simp: heartbeat_ui_of_def inst_get_def try_recv_inbound_inner snapshot_of_def
      split: option.split)

definition still :: "'ch env \<Rightarrow> bool" where
  "still env \<longleftrightarrow> (\<forall>n m i. heartbeat_ui_of i (env n m) = heartbeat_ui_of i m)"

lemma drain_loop_keeps_ui:
  assumes "drain_loop env enc j msk events r = Some y" and "still env"
  shows "heartbeat_ui_of i (run_map (snd y)) = heartbeat_ui_of i (run_map r)"
  using assms
proof (induction env enc j msk events r y rule: drain_loop.raw_induct [rotated, consumes 1])
  case (1 dl env enc j msk events r y)
  then show ?case
    by (auto simp: locked_eq recv_keeps_ui still_def split: option.splits if_splits)
qed

lemma drain_observe_keeps_ui:
  assumes "drain_observe env enc sel r = Some (res, r')" and "still env"
  shows "heartbeat_ui_of i (run_map r') = heartbeat_ui_of i (run_map r)"
proof (cases "mcp_resolve sel (env (run_step r) (run_map r))")
  case (Inl e)
  with assms show ?thesis by (auto simp: drain_observe_def locked_eq still_def)
next
  case (Inr snap)
  let ?i = "reg_instance_id (snap_register snap)"
  let ?r2 = "\<lparr>run_map = env (Suc (run_step r)) (env (run_step r) (run_map r)), run_step = Suc (Suc (run_step r))\<rparr>"
  obtain msk events where "drain_loop env enc ?i msk [] ?r2 = Some (events, r')"
    using assms(1) Inr by (auto simp: drain_observe_def locked_eq bind_eq_Some_conv Let_def)
  from drain_loop_keeps_ui [OF this assms(2), of i] assms(2) show ?thesis by (simp add: still_def)
qed

definition generation_of :: "string \<Rightarrow> 'ch imap \<Rightarrow> u64" where
  "generation_of i m = (case ui_hb_generation (heartbeat_ui_of i m) of Some g \<Rightarrow> g | None \<Rightarrow> 0)"

lemma generation_floor_unmatched:
  "\<not> observe_until_matched None (Some (generation_of i m)) None None events
      (ui_hb_generation (heartbeat_ui_of i m)) a p"
  by (auto simp: observe_until_matched_def generation_of_def split: option.split)

lemma observe_loop_still:
  assumes "observe_loop env clk enc ul gf ua up waiting deadline i j events r = Some y" and "still env"
    and "gf = Some (generation_of i (run_map r))" and "ul = None" and "ua = None" and "up = None"
    and "waiting" and "fst y = Inr body"
  shows "jget ''matched'' body = Some (JBool False)"
  using assms
proof (induction env clk enc ul gf ua up waiting deadline i j events r y
    rule: observe_loop.raw_induct [rotated, consumes 1])
  case (1 loop env clk enc ul gf ua up waiting deadline i j events r y)
  have same: "heartbeat_ui_of i (env n m) = heartbeat_ui_of i m" for n m
    using 1(3) by (simp add: still_def)
  have unmatched: "\<not> observe_until_matched ul gf ua up events
      (ui_hb_generation (heartbeat_ui_of i (run_map r))) a p" for a p
    using 1(4-7) generation_floor_unmatched by simp
  show ?case
  proof (cases "deadline \<le> clk j")
    case True
    then show ?thesis
      using 1(2,8,9) unmatched by (auto simp: locked_eq same observe_result_def Let_def update_conv')
  next
    case False
    let ?r = "\<lparr>run_map = env (run_step r) (run_map r), run_step = Suc (run_step r)\<rparr>"
    obtain i' newer r2 where d: "drain_observe env enc (Some i) ?r = Some (Inr (i', newer), r2)"
      and rec: "loop env clk enc ul gf ua up waiting deadline i (Suc j) (events @ newer) r2 = Some y"
    proof -
      have "Option.bind (drain_observe env enc (Some i) ?r)
          (\<lambda>(res, r2). case res of Inl e \<Rightarrow> Some (Inl e, r2)
             | Inr (i', newer) \<Rightarrow> loop env clk enc ul gf ua up waiting deadline i (Suc j) (events @ newer) r2)
          = Some y"
        using 1(2) False unmatched by (simp add: locked_eq same split: if_split_asm)
      then obtain res r2 where d: "drain_observe env enc (Some i) ?r = Some (res, r2)"
        and k: "(case res of Inl e \<Rightarrow> Some (Inl e, r2)
             | Inr (i', newer) \<Rightarrow> loop env clk enc ul gf ua up waiting deadline i (Suc j) (events @ newer) r2)
          = Some y"
        by (cases "drain_observe env enc (Some i) ?r") auto
      with 1(9) that show thesis by (cases res) auto
    qed
    have "heartbeat_ui_of i (run_map r2) = heartbeat_ui_of i (run_map r)"
      using drain_observe_keeps_ui [OF d 1(3), of i] by (simp add: same)
    then have "gf = Some (generation_of i (run_map r2))" using 1(4) by (simp add: generation_of_def)
    from "1.IH" [OF rec 1(3) this 1(5-9)] show ?thesis .
  qed
qed

text \<open>C31. Waiting for a generation above zero waits for a new frame: while no heartbeat changes, a
  call whose only condition is \<open>until_generation_gt = 0\<close> never reports a match, whatever the
  generation already is.\<close>

theorem zero_generation_waits_for_a_bump:
  assumes "still env" and "sp_until_generation_gt spec = Some 0"
    and "non_empty (sp_until_log spec) = None" and "non_empty (sp_until_activity spec) = None"
    and "sp_until_progress_page spec = None"
    and "observe_wait_json env clk enc dflt sel spec r = Some (Inr body, r')"
  shows "jget ''matched'' body = Some (JBool False)"
proof -
  obtain i events r1 where d: "drain_observe env enc sel r = Some (Inr (i, events), r1)"
    using assms(6) by (auto simp: observe_wait_json_def split: option.splits prod.splits sum.splits)
  let ?r2 = "\<lparr>run_map = env (run_step r1) (run_map r1), run_step = Suc (run_step r1)\<rparr>"
  from assms d have "observe_loop env clk enc None (Some (generation_of i (run_map ?r2))) None None True
      (clk 0 + timeout_ms dflt spec) i 1 events ?r2 = Some (Inr body, r')"
    by (simp add: observe_wait_json_def locked_eq Let_def is_waiting_def generation_of_def)
  from observe_loop_still [OF this assms(1) refl refl refl refl] show ?thesis by simp
qed

definition generation_wait :: observe_spec where
  "generation_wait =
     \<lparr>sp_wait_ms = Some 100, sp_until_log = None, sp_until_generation_gt = Some 0,
      sp_until_activity = None, sp_until_progress_page = None\<rparr>"

definition beating_run :: "server_to_sim list run" where
  "beating_run = \<lparr>run_map = set_heartbeat ''a'' 1 (sample_heartbeat 7) lone_instance, run_step = 0\<rparr>"

theorem zero_generation_waits_for_a_bump_witness:
  "map_option (\<lambda>(res, _). case res of Inr body \<Rightarrow> jget ''matched'' body | Inl e \<Rightarrow> None)
     (observe_wait_json (\<lambda>_ m. m) steady_clock text_enc 8000 (Some ''a'') generation_wait beating_run)
   = Some (Some (JBool False))"
proof -
  have "case observe_wait_json (\<lambda>_ m. m) steady_clock text_enc 8000 (Some ''a'') generation_wait beating_run
      of Some (Inr _, _) \<Rightarrow> True | _ \<Rightarrow> False"
    by code_simp
  then obtain body r' where b: "observe_wait_json (\<lambda>_ m. m) steady_clock text_enc 8000 (Some ''a'')
      generation_wait beating_run = Some (Inr body, r')"
    by (auto split: option.splits sum.splits)
  have "jget ''matched'' body = Some (JBool False)"
    by (rule zero_generation_waits_for_a_bump [OF _ _ _ _ _ b])
      (simp_all add: still_def generation_wait_def non_empty_def)
  with b show ?thesis by simp
qed

text \<open>C40. An error discards what was drained: when the instance disconnects between the first drain
  and the next one, a call that is still waiting answers with the error alone; the events it had
  already taken from the queue are in no answer.\<close>

theorem disconnect_discards_drained_events:
  assumes "drain_observe env enc sel r = Some (Inr (i, events), r1)"
    and "is_waiting spec" and "sp_until_generation_gt spec = None"
    and "\<not> pass_match (non_empty (sp_until_log spec)) None (non_empty (sp_until_activity spec))
           (sp_until_progress_page spec) events i (run_map (pass_run env r1))"
    and "clk 1 < clk 0 + timeout_ms dflt spec"
    and "mcp_resolve (Some i) (run_map (pass_run env (pass_run env r1))) = Inl e"
  shows "map_option fst (observe_wait_json env clk enc dflt sel spec r) = Some (Inl e)"
proof -
  have "drain_observe env enc (Some i) (pass_run env r1) = Some (Inl e, pass_run env (pass_run env r1))"
    using assms(6) by (simp add: drain_observe_def locked_eq pass_run_def)
  with assms(1-5) observe_loop_again [where clk = clk and j = 1 and waiting = True and gf = None
      and deadline = "clk 0 + timeout_ms dflt spec" and env = env and r = r1 and events = events and i = i
      and ul = "non_empty (sp_until_log spec)" and ua = "non_empty (sp_until_activity spec)"
      and up = "sp_until_progress_page spec" and enc = enc]
  show ?thesis by (simp add: observe_wait_json_def Let_def del: One_nat_def)
qed

definition leaving_env :: "server_to_sim list env" where
  "leaving_env n m = (if n = 5 then remove_if ''a'' 1 m else m)"

theorem disconnect_discards_drained_events_witness:
  "map_option fst (observe_wait_json leaving_env steady_clock text_enc 8000 (Some ''a'')
     (log_wait ''Done'') logging_run) = Some (Inl unknown_instance_text)"
proof -
  let ?d = "drain_observe leaving_env text_enc (Some ''a'') logging_run"
  let ?r1 = "snd (the ?d)"
  let ?events = "[JObj [(''log'', JObj [(''text'', JStr ''Ready'')])]]"
  have "map_option fst ?d = Some (Inr (''a'', ?events))" by code_simp
  then have "?d = Some (Inr (''a'', ?events), ?r1)" by (cases ?d) auto
  moreover have "\<not> pass_match (Some ''Done'') None None None ?events ''a'' (run_map (pass_run leaving_env ?r1))"
    by code_simp
  moreover have "mcp_resolve (Some ''a'') (run_map (pass_run leaving_env (pass_run leaving_env ?r1))) =
      Inl unknown_instance_text"
    by code_simp
  ultimately show ?thesis
    using disconnect_discards_drained_events [of leaving_env text_enc "Some ''a''" logging_run "''a''"
        ?events ?r1 "log_wait ''Done''" steady_clock 8000 unknown_instance_text]
    by (simp add: log_wait_def is_waiting_def non_empty_def steady_clock_def timeout_ms_def)
qed


end
