(* ===== verification/Mcp_Tools.thy ===== *)
theory Mcp_Tools
  imports Observe
begin

text \<open>
  The tools and resources of the MCP server (\<open>crates/csm-proxy/src/mcp.rs\<close>) other than
  \<open>observe\<close> and \<open>start_instance\<close>. A call takes the map's lock several times; \<open>gap sc\<close> is what
  the other tasks did before each later acquisition, and \<open>await_rx sc\<close> how a wait for a reply
  ended, as in \<open>Waiters\<close>.

  Code outside the repository appears as parameters: \<open>ts\<close> is the outbound channel's
  \<open>try_send\<close>, \<open>rj\<close> and \<open>hj\<close> the generated JSON of a \<open>Register\<close> and a \<open>Heartbeat\<close>, \<open>txt\<close> is
  \<open>serde_json\<close>'s printer and \<open>b64\<close> the base64 encoder.
\<close>

subsection \<open>Sending\<close>

definition queue_full_text :: string where
  "queue_full_text = ''outbound queue is full''"

definition timed_out_text :: string where
  "timed_out_text = ''timed out waiting for session reply''"

definition disconnected_text :: string where
  "disconnected_text = ''instance disconnected''"

definition unexpected_reply_text :: string where
  "unexpected_reply_text = ''unexpected session reply''"

definition wait_error_text :: "wait_error \<Rightarrow> string" where
  "wait_error_text e =
     (case e of
        WaitUnknownInstance \<Rightarrow> unknown_instance_text
      | WaitQueueFull \<Rightarrow> queue_full_text
      | WaitTimeout \<Rightarrow> timed_out_text
      | WaitDisconnected \<Rightarrow> disconnected_text)"

definition send_error_text :: "try_send_error \<Rightarrow> string" where
  "send_error_text e =
     (case e of SendUnknownInstance \<Rightarrow> unknown_instance_text | SendQueueFull \<Rightarrow> queue_full_text)"

definition enqueue ::
    "'ch try_send_fn \<Rightarrow> 'ch sched \<Rightarrow> string option \<Rightarrow> bool \<Rightarrow> srv_payload \<Rightarrow> 'ch imap \<Rightarrow>
     (string + json) \<times> 'ch imap" where
  "enqueue ts sc sel ack_requested pl m =
     (case mcp_resolve sel m of
        Inl e \<Rightarrow> (Inl e, m)
      | Inr snap \<Rightarrow>
          (let iid = reg_instance_id (snap_register snap);
               (c, m1) = next_corr (gap sc m);
               msg = \<lparr>req_corr = c, req_ack_requested = ack_requested, req_payload = Some pl\<rparr>;
               (sent, m2) = try_send ts iid msg (gap sc m1)
           in case sent of
                Inl e \<Rightarrow> (Inl (send_error_text e), m2)
              | Inr _ \<Rightarrow>
                  (Inr (JObj [(''queued'', JBool True), (''instanceId'', JStr iid),
                              (''corr'', JNum (uint c))]), m2)))"

definition enqueue_wait ::
    "'ch try_send_fn \<Rightarrow> 'ch sched \<Rightarrow> string option \<Rightarrow> bool \<Rightarrow> srv_payload \<Rightarrow> wait_kind \<Rightarrow> nat \<Rightarrow>
     'ch imap \<Rightarrow> (string + string \<times> u64 \<times> sim_to_server) \<times> 'ch imap" where
  "enqueue_wait ts sc sel ack_requested pl kind timeout m =
     (case mcp_resolve sel m of
        Inl e \<Rightarrow> (Inl e, m)
      | Inr snap \<Rightarrow>
          (let iid = reg_instance_id (snap_register snap);
               (c, m1) = next_corr (gap sc m);
               msg = \<lparr>req_corr = c, req_ack_requested = ack_requested, req_payload = Some pl\<rparr>
           in case send_and_wait_for ts sc iid msg timeout kind (gap sc m1) of
                (Inl e, m2) \<Rightarrow> (Inl (wait_error_text e), m2)
              | (Inr reply, m2) \<Rightarrow> (Inr (iid, c, reply), m2)))"

definition default_str :: "string \<Rightarrow> string option \<Rightarrow> string" where
  "default_str d s = (case s of Some t \<Rightarrow> t | None \<Rightarrow> d)"

definition inject_wait_kind :: "string option \<Rightarrow> string + wait_kind" where
  "inject_wait_kind wait_mode =
     (let w = default_str ''paint'' wait_mode
      in if w = ''paint'' then Inr WaitUiResult
         else if w = ''ack'' then Inr WaitAny
         else Inl (''unknown wait_mode: '' @ w))"

definition parse_coordinate_space :: "string option \<Rightarrow> string + coordinate_space" where
  "parse_coordinate_space space =
     (let s = default_str ''logical'' space
      in if s = ''logical'' then Inr Logical
         else if s = ''panel'' then Inr Panel
         else Inl (''unknown coordinate_space: '' @ s))"

subsection \<open>Injecting\<close>

definition inject_reply ::
    "string \<Rightarrow> u64 \<Rightarrow> sim_to_server \<Rightarrow> 'ch imap \<Rightarrow> string + json" where
  "inject_reply iid c reply m =
     (case payload reply of
        Some (UiResult result) \<Rightarrow>
          Inr (JObj [(''accepted'', JBool True), (''painted'', JBool (ui_painted result)),
                     (''generation'', JNum (uint (ui_generation result))),
                     (''activity'', JStr (ui_activity result)),
                     (''instanceId'', JStr iid), (''corr'', JNum (uint c))])
      | Some (InputAck ack) \<Rightarrow>
          if ack_accepted ack then
            (let hb = Option.bind (inst_get iid m) snap_last_heartbeat
             in Inr (JObj [(''accepted'', JBool True), (''instanceId'', JStr iid),
                           (''corr'', JNum (uint c)),
                           (''generation'', jopt (\<lambda>h. JNum (uint (hb_framebuffer_generation h))) hb),
                           (''activity'', JStr (case hb of Some h \<Rightarrow> hb_activity h | None \<Rightarrow> []))]))
          else Inl (if ack_reason ack = [] then ''inject rejected'' else ack_reason ack)
      | _ \<Rightarrow> Inl unexpected_reply_text)"

definition inject ::
    "'ch try_send_fn \<Rightarrow> 'ch sched \<Rightarrow> string option \<Rightarrow> bool \<Rightarrow> string option \<Rightarrow> u32 option \<Rightarrow>
     srv_payload \<Rightarrow> 'ch imap \<Rightarrow> (string + json) \<times> 'ch imap" where
  "inject ts sc sel wait wait_mode wait_ms pl m =
     (if \<not> wait then enqueue ts sc sel False pl m
      else case inject_wait_kind wait_mode of
        Inl e \<Rightarrow> (Inl e, m)
      | Inr kind \<Rightarrow>
          (let timeout = (case wait_ms of Some ms \<Rightarrow> unat ms | None \<Rightarrow> REPLY_TIMEOUT)
           in case enqueue_wait ts sc sel True pl kind timeout m of
                (Inl e, m1) \<Rightarrow> (Inl e, m1)
              | (Inr (iid, c, reply), m1) \<Rightarrow>
                  (let m2 = gap sc m1 in (inject_reply iid c reply m2, m2))))"

definition inject_touch_json ::
    "'ch try_send_fn \<Rightarrow> 'ch sched \<Rightarrow> string option \<Rightarrow> u32 \<Rightarrow> u32 \<Rightarrow> u32 \<Rightarrow> bool \<Rightarrow> string option \<Rightarrow>
     string option \<Rightarrow> u32 option \<Rightarrow> 'ch imap \<Rightarrow> (string + json) \<times> 'ch imap" where
  "inject_touch_json ts sc sel kind x y wait wait_mode space wait_ms m =
     (case parse_coordinate_space space of
        Inl e \<Rightarrow> (Inl e, m)
      | Inr sp \<Rightarrow>
          inject ts sc sel wait wait_mode wait_ms
            (InjectTouch \<lparr>touch_kind = kind, touch_x = x, touch_y = y, touch_space = sp\<rparr>) m)"

definition inject_key_json ::
    "'ch try_send_fn \<Rightarrow> 'ch sched \<Rightarrow> string option \<Rightarrow> string \<Rightarrow> u32 \<Rightarrow> bool \<Rightarrow> string option \<Rightarrow>
     u32 option \<Rightarrow> 'ch imap \<Rightarrow> (string + json) \<times> 'ch imap" where
  "inject_key_json ts sc sel name hold_ms wait wait_mode wait_ms m =
     inject ts sc sel wait wait_mode wait_ms (InjectKey \<lparr>key_name = name, key_hold_ms = hold_ms\<rparr>) m"

definition inject_home_json ::
    "'ch try_send_fn \<Rightarrow> 'ch sched \<Rightarrow> string option \<Rightarrow> u32 \<Rightarrow> bool \<Rightarrow> string option \<Rightarrow>
     u32 option \<Rightarrow> 'ch imap \<Rightarrow> (string + json) \<times> 'ch imap" where
  "inject_home_json ts sc sel hold_ms wait wait_mode wait_ms m =
     inject ts sc sel wait wait_mode wait_ms (InjectHome hold_ms) m"

definition inject_swipe_json ::
    "'ch try_send_fn \<Rightarrow> 'ch sched \<Rightarrow> string option \<Rightarrow> u32 \<Rightarrow> u32 \<Rightarrow> u32 \<Rightarrow> u32 \<Rightarrow> u32 \<Rightarrow> bool \<Rightarrow>
     string option \<Rightarrow> string option \<Rightarrow> u32 option \<Rightarrow> 'ch imap \<Rightarrow> (string + json) \<times> 'ch imap" where
  "inject_swipe_json ts sc sel start_x start_y end_x end_y duration_ms wait wait_mode space wait_ms m =
     (case parse_coordinate_space space of
        Inl e \<Rightarrow> (Inl e, m)
      | Inr sp \<Rightarrow>
          inject ts sc sel wait wait_mode wait_ms
            (InjectSwipe \<lparr>swipe_start_x = start_x, swipe_start_y = start_y, swipe_end_x = end_x,
               swipe_end_y = end_y, swipe_duration_ms = duration_ms, swipe_space = sp\<rparr>) m)"

subsection \<open>Batches\<close>

record inject_batch_step =
  step_kind :: string
  step_x :: u32
  step_y :: u32
  step_touch_kind :: "u32 option"
  step_name :: "string option"
  step_hold_ms :: u32
  step_start_x :: u32
  step_start_y :: u32
  step_end_x :: u32
  step_end_y :: u32
  step_duration_ms :: u32
  step_wait :: "bool option"
  step_wait_mode :: "string option"
  step_space :: "string option"
  step_wait_ms :: "u32 option"

definition or_else :: "'a option \<Rightarrow> 'a option \<Rightarrow> 'a option" where
  "or_else a b = (case a of Some x \<Rightarrow> Some x | None \<Rightarrow> b)"

definition batch_step ::
    "'ch try_send_fn \<Rightarrow> 'ch sched \<Rightarrow> string \<Rightarrow> bool \<Rightarrow> string option \<Rightarrow> string option \<Rightarrow> u32 option \<Rightarrow>
     inject_batch_step \<Rightarrow> 'ch imap \<Rightarrow> (string + json) \<times> 'ch imap" where
  "batch_step ts sc iid wait wait_mode space wait_ms st m =
     (let w = (case step_wait st of Some b \<Rightarrow> b | None \<Rightarrow> wait);
          mode = or_else (step_wait_mode st) wait_mode;
          sp = or_else (step_space st) space;
          ms = or_else (step_wait_ms st) wait_ms
      in if step_kind st = ''touch'' then
           inject_touch_json ts sc (Some iid)
             (case step_touch_kind st of Some k \<Rightarrow> k | None \<Rightarrow> 3) (step_x st) (step_y st) w mode sp ms m
         else if step_kind st = ''key'' then
           inject_key_json ts sc (Some iid) (default_str [] (step_name st)) (step_hold_ms st) w mode ms m
         else if step_kind st = ''home'' then
           inject_home_json ts sc (Some iid) (step_hold_ms st) w mode ms m
         else if step_kind st = ''swipe'' then
           inject_swipe_json ts sc (Some iid) (step_start_x st) (step_start_y st) (step_end_x st)
             (step_end_y st) (step_duration_ms st) w mode sp ms m
         else (Inl (''unknown inject_batch step kind: '' @ step_kind st), m))"

fun batch_loop ::
    "(inject_batch_step \<Rightarrow> 'ch imap \<Rightarrow> (string + json) \<times> 'ch imap) \<Rightarrow> ('ch imap \<Rightarrow> 'ch imap) \<Rightarrow>
     string \<Rightarrow> nat \<Rightarrow> json list \<Rightarrow> inject_batch_step list \<Rightarrow> 'ch imap \<Rightarrow> json \<times> 'ch imap" where
  "batch_loop run g iid index results [] m =
     (JObj [(''instanceId'', JStr iid), (''stopped'', JBool False), (''results'', JArr results)], m)"
| "batch_loop run g iid index results (st # steps) m =
     (case run st (g m) of
        (Inr value, m1) \<Rightarrow>
          batch_loop run g iid (Suc index)
            (results @ [JObj [(''index'', JNum (int index)), (''result'', value)]]) steps m1
      | (Inl error, m1) \<Rightarrow>
          (JObj [(''instanceId'', JStr iid), (''stopped'', JBool True),
                 (''failedIndex'', JNum (int index)), (''error'', JStr error),
                 (''results'', JArr (results @
                    [JObj [(''index'', JNum (int index)), (''error'', JStr error)]]))], m1))"

definition inject_batch_json ::
    "'ch try_send_fn \<Rightarrow> 'ch sched \<Rightarrow> string option \<Rightarrow> bool \<Rightarrow> string option \<Rightarrow> string option \<Rightarrow>
     u32 option \<Rightarrow> inject_batch_step list \<Rightarrow> 'ch imap \<Rightarrow> (string + json) \<times> 'ch imap" where
  "inject_batch_json ts sc sel wait wait_mode space wait_ms steps m =
     (case mcp_resolve sel m of
        Inl e \<Rightarrow> (Inl e, m)
      | Inr snap \<Rightarrow>
          (let iid = reg_instance_id (snap_register snap);
               (body, m1) = batch_loop (batch_step ts sc iid wait wait_mode space wait_ms) (gap sc)
                              iid 0 [] steps m
           in (Inr body, m1)))"

subsection \<open>Session settings and snapshots\<close>

definition set_inject_enabled_json ::
    "'ch try_send_fn \<Rightarrow> 'ch sched \<Rightarrow> string option \<Rightarrow> bool \<Rightarrow> 'ch imap \<Rightarrow> (string + json) \<times> 'ch imap"
  where
  "set_inject_enabled_json ts sc sel enabled m = enqueue ts sc sel False (SetInjectEnabled enabled) m"

definition shutdown_instance_json ::
    "'ch try_send_fn \<Rightarrow> 'ch sched \<Rightarrow> string option \<Rightarrow> 'ch imap \<Rightarrow> (string + json) \<times> 'ch imap" where
  "shutdown_instance_json ts sc sel m = enqueue ts sc sel False Shutdown m"

definition wire_session_view_paths :: "string list \<Rightarrow> string list" where
  "wire_session_view_paths paths =
     (if paths = [] \<or> list_ex (\<lambda>path. path = ''heartbeat'') paths then paths
      else paths @ [''heartbeat''])"

definition set_session_view_json ::
    "'ch try_send_fn \<Rightarrow> 'ch sched \<Rightarrow> string option \<Rightarrow> string list \<Rightarrow> string list \<Rightarrow> 'ch imap \<Rightarrow>
     (string + json) \<times> 'ch imap" where
  "set_session_view_json ts sc sel paths excluded m =
     (case mcp_resolve sel m of
        Inl e \<Rightarrow> (Inl e, m)
      | Inr snap \<Rightarrow>
          (let iid = reg_instance_id (snap_register snap)
           in case enqueue ts sc (Some iid) False
                     (SetSessionView \<lparr>view_read_mask = wire_session_view_paths paths,
                        view_exclude_log_components = excluded\<rparr>) (gap sc m) of
                (Inl e, m1) \<Rightarrow> (Inl e, m1)
              | (Inr queued, m1) \<Rightarrow>
                  (let m2 = set_read_mask iid paths (gap sc m1);
                       m3 = set_exclude_log_components iid excluded (gap sc m2)
                   in (Inr queued, m3))))"

datatype content_block = TextBlock string | ImageBlock string string

datatype call_tool_result = ToolSuccess "content_block list" | ToolError "content_block list"

definition tool_result :: "(json \<Rightarrow> string) \<Rightarrow> string + json \<Rightarrow> call_tool_result" where
  "tool_result txt r =
     (case r of
        Inr value \<Rightarrow> ToolSuccess [TextBlock (txt value)]
      | Inl message \<Rightarrow> ToolError [TextBlock message])"

definition snapshot_reply ::
    "(json \<Rightarrow> string) \<Rightarrow> (string \<Rightarrow> string) \<Rightarrow> string \<Rightarrow> u64 \<Rightarrow> sim_to_server \<Rightarrow> call_tool_result" where
  "snapshot_reply txt b64 iid c reply =
     (case payload reply of
        Some (Snapshot frame) \<Rightarrow>
          (let mime = (if sf_mime_type frame = [] then ''image/png'' else sf_mime_type frame);
               body = JObj [(''instanceId'', JStr iid), (''corr'', JNum (uint c)),
                            (''mimeType'', JStr mime), (''width'', JNum (uint (sf_width frame))),
                            (''height'', JNum (uint (sf_height frame))),
                            (''generation'', JNum (uint (sf_generation frame)))]
           in ToolSuccess [TextBlock (txt body), ImageBlock (b64 (sf_pixels frame)) mime])
      | Some (SnapshotError err) \<Rightarrow>
          tool_result txt (Inl (if se_message err = [] then ''snapshot failed'' else se_message err))
      | _ \<Rightarrow> tool_result txt (Inl unexpected_reply_text))"

definition request_snapshot_result ::
    "'ch try_send_fn \<Rightarrow> 'ch sched \<Rightarrow> (json \<Rightarrow> string) \<Rightarrow> (string \<Rightarrow> string) \<Rightarrow> string option \<Rightarrow>
     snapshot_request \<Rightarrow> bool \<Rightarrow> 'ch imap \<Rightarrow> call_tool_result \<times> 'ch imap" where
  "request_snapshot_result ts sc txt b64 sel req wait m =
     (if \<not> wait then
        (let (queued, m1) = enqueue ts sc sel False (SnapshotRequest req) m
         in (tool_result txt queued, m1))
      else case enqueue_wait ts sc sel False (SnapshotRequest req) WaitSnapshot REPLY_TIMEOUT m of
        (Inr (iid, c, reply), m1) \<Rightarrow> (snapshot_reply txt b64 iid c reply, m1)
      | (Inl message, m1) \<Rightarrow> (tool_result txt (Inl message), m1))"

subsection \<open>Listing and resources\<close>

definition snapshot_json :: "(register \<Rightarrow> json) \<Rightarrow> (heartbeat \<Rightarrow> json) \<Rightarrow> instance_snapshot \<Rightarrow> json" where
  "snapshot_json rj hj snap =
     JObj [(''instanceId'', JStr (reg_instance_id (snap_register snap))),
           (''register'', rj (snap_register snap)),
           (''lastHeartbeat'', jopt hj (snap_last_heartbeat snap))]"

definition json_instance_id :: "json \<Rightarrow> string" where
  "json_instance_id a =
     (case Option.bind (jget ''instanceId'' a) jas_str of Some s \<Rightarrow> s | None \<Rightarrow> [])"

definition list_instances_json ::
    "(register \<Rightarrow> json) \<Rightarrow> (heartbeat \<Rightarrow> json) \<Rightarrow> 'ch imap \<Rightarrow> json" where
  "list_instances_json rj hj m =
     JObj [(''instances'', JArr (sort_key json_instance_id (map (snapshot_json rj hj) (snapshots m))))]"

definition get_instance_json ::
    "(register \<Rightarrow> json) \<Rightarrow> (heartbeat \<Rightarrow> json) \<Rightarrow> string option \<Rightarrow> 'ch imap \<Rightarrow> string + json" where
  "get_instance_json rj hj sel m =
     (case mcp_resolve sel m of Inl e \<Rightarrow> Inl e | Inr snap \<Rightarrow> Inr (snapshot_json rj hj snap))"

definition INSTANCES_URI :: string where
  "INSTANCES_URI = ''csm://instances''"

definition INSTANCE_URI_PREFIX :: string where
  "INSTANCE_URI_PREFIX = ''csm://instances/''"

definition CAPABILITIES_URI :: string where
  "CAPABILITIES_URI = ''csm://capabilities''"

definition instance_uri :: "string \<Rightarrow> string" where
  "instance_uri iid = INSTANCE_URI_PREFIX @ iid"

text \<open>A listed resource is its URI and its name.\<close>

definition list_resources :: "'ch imap \<Rightarrow> (string \<times> string) list" where
  "list_resources m =
     [(CAPABILITIES_URI, ''capabilities''), (INSTANCES_URI, ''instances'')] @
     map (\<lambda>iid. (instance_uri iid, iid)) (sort (list_ids m))"

datatype read_error = ResourceNotFound string

definition read_instance_resource ::
    "(json \<Rightarrow> string) \<Rightarrow> (register \<Rightarrow> json) \<Rightarrow> (heartbeat \<Rightarrow> json) \<Rightarrow> string \<Rightarrow> 'ch imap \<Rightarrow>
     read_error + string" where
  "read_instance_resource txt rj hj iid m =
     (case get_instance_json rj hj (Some iid) m of
        Inr v \<Rightarrow> Inr (txt v)
      | Inl _ \<Rightarrow> Inl (ResourceNotFound (instance_uri iid)))"

definition read_resource ::
    "(json \<Rightarrow> string) \<Rightarrow> (register \<Rightarrow> json) \<Rightarrow> (heartbeat \<Rightarrow> json) \<Rightarrow> json \<Rightarrow> string \<Rightarrow> 'ch imap \<Rightarrow>
     read_error + string" where
  "read_resource txt rj hj capabilities uri m =
     (if uri = CAPABILITIES_URI then Inr (txt capabilities)
      else if uri = INSTANCES_URI then Inr (txt (list_instances_json rj hj m))
      else (case strip_prefix INSTANCE_URI_PREFIX uri of
              Some iid \<Rightarrow>
                if iid \<noteq> [] then read_instance_resource txt rj hj iid m
                else Inl (ResourceNotFound uri)
            | None \<Rightarrow> Inl (ResourceNotFound uri)))"

subsection \<open>Listing\<close>

lemma json_instance_id_snapshot [simp]:
  "json_instance_id (snapshot_json rj hj snap) = reg_instance_id (snap_register snap)"
  by (simp add: json_instance_id_def snapshot_json_def)

lemma snapshots_mset: "mset (im_inner m) = mset (im_inner m') \<Longrightarrow> mset (snapshots m) = mset (snapshots m')"
  by (simp add: snapshots_def mset_map)

lemma snapshot_ids:
  assumes "imap_wf m"
  shows "map (\<lambda>s. reg_instance_id (snap_register s)) (snapshots m) = list_ids m"
proof -
  have "reg_instance_id (inst_register inst) = i" if "(i, inst) \<in> set (im_inner m)" for i inst
    using that imap_wfD [OF assms] by (auto simp: hm_get_in_set entry_wf_def)
  then show ?thesis by (auto simp: snapshots_def list_ids_def snapshot_of_def)
qed

lemma list_ids_facts:
  assumes "imap_wf m"
  shows "distinct (list_ids m)" and "i \<in> set (list_ids m) \<longleftrightarrow> hm_get (im_inner m) i \<noteq> None"
  using imap_wfD(1) [OF assms] by (simp_all add: hm_wf_def list_ids_def hm_keys_iff del: set_map)

lemma sort_key_mset_cong:
  assumes "mset xs = mset ys" and "inj_on f (set xs)"
  shows "sort_key f xs = sort_key f ys"
  by (rule sort_key_inj_key_eq) (use assms in auto)

lemma distinct_map_inj: "distinct (map f xs) \<Longrightarrow> inj_on f (set xs)"
  by (simp add: distinct_map)

text \<open>C33. The instance list is canonical: it has one entry for each connected instance, in strictly
  increasing order of id, and it does not depend on the order in which the hash map happens to
  iterate; nor does the list of resources.\<close>

theorem listing_is_canonical:
  assumes "imap_wf m" and "mset (im_inner m') = mset (im_inner m)"
  shows "list_instances_json rj hj m' = list_instances_json rj hj m \<and>
    list_resources m' = list_resources m \<and>
    (\<exists>entries. list_instances_json rj hj m = JObj [(''instances'', JArr entries)] \<and>
       sorted_wrt (<) (map json_instance_id entries) \<and>
       set (map json_instance_id entries) = {i. hm_get (im_inner m) i \<noteq> None})"
proof (intro conjI exI)
  let ?js = "\<lambda>m. map (snapshot_json rj hj) (snapshots m)"
  let ?entries = "sort_key json_instance_id (?js m)"
  have ids: "map json_instance_id (?js m) = list_ids m"
    using snapshot_ids [OF assms(1)] by (simp add: comp_def)
  have "mset (?js m') = mset (?js m)" using snapshots_mset [OF assms(2)] by (simp add: mset_map)
  moreover have "inj_on json_instance_id (set (?js m))"
    by (rule distinct_map_inj) (simp only: ids list_ids_facts(1) [OF assms(1)])
  ultimately have "sort_key json_instance_id (?js m') = ?entries"
    using sort_key_mset_cong [of "?js m" "?js m'" json_instance_id] by simp
  then show "list_instances_json rj hj m' = list_instances_json rj hj m"
    by (simp add: list_instances_json_def)
  have "mset (list_ids m') = mset (list_ids m)" using assms(2) by (simp add: list_ids_def mset_map)
  then have "sort (list_ids m') = sort (list_ids m)" by (intro properties_for_sort) auto
  then show "list_resources m' = list_resources m" by (simp add: list_resources_def)
  show "list_instances_json rj hj m = JObj [(''instances'', JArr ?entries)]"
    by (simp add: list_instances_json_def)
  have "mset (map json_instance_id ?entries) = mset (map json_instance_id (?js m))"
    by (simp only: mset_map mset_sort)
  then have same: "mset (map json_instance_id ?entries) = mset (list_ids m)" by (simp only: ids)
  then have "distinct (map json_instance_id ?entries)"
    using list_ids_facts(1) [OF assms(1)] mset_eq_imp_distinct_iff by blast
  then show "sorted_wrt (<) (map json_instance_id ?entries)"
    by (simp add: strict_sorted_iff)
  show "set (map json_instance_id ?entries) = {i. hm_get (im_inner m) i \<noteq> None}"
    using mset_eq_setD [OF same] list_ids_facts(2) [OF assms(1)] by auto
qed

theorem listing_is_canonical_witness:
  "list_instances_json (\<lambda>_. JNull) (\<lambda>_. JNull) lone_instance =
     list_instances_json (\<lambda>_. JNull) (\<lambda>_. JNull) lone_instance \<and>
   (\<exists>entries. list_instances_json (\<lambda>_. JNull) (\<lambda>_. JNull) lone_instance =
       JObj [(''instances'', JArr entries)] \<and> set (map json_instance_id entries) = {''a''})"
proof -
  have "{i. hm_get (im_inner lone_instance) i \<noteq> None} = {''a''}"
    by (auto simp: lone_instance_def imap_insert_inner imap_new_def)
  then show ?thesis
    using listing_is_canonical [OF lone_instance_wf refl, of "\<lambda>_. JNull" "\<lambda>_. JNull"] by auto
qed

lemma uri_facts:
  "instance_uri i \<noteq> CAPABILITIES_URI" "instance_uri i \<noteq> INSTANCES_URI"
  "strip_prefix INSTANCE_URI_PREFIX (instance_uri i) = Some i" "INSTANCES_URI \<noteq> CAPABILITIES_URI"
  by (simp_all add: instance_uri_def CAPABILITIES_URI_def INSTANCES_URI_def INSTANCE_URI_PREFIX_def)

lemma uri_inj: "instance_uri i = instance_uri j \<longleftrightarrow> i = j"
  by (simp add: instance_uri_def)

lemma list_resources_uris:
  "fst ` set (list_resources m) = {CAPABILITIES_URI, INSTANCES_URI} \<union> instance_uri ` set (list_ids m)"
  by (simp add: list_resources_def image_Un image_image)

text \<open>Every listed resource can be read, and only those: reading an instance resource returns the
  text of that instance's snapshot when it is connected, and otherwise the resource is reported
  missing under the URI asked for.\<close>

lemma listed_resources_are_readable:
  assumes "imap_wf m" and "i \<noteq> []"
  shows "read_resource txt rj hj caps (instance_uri i) m =
      (case hm_get (im_inner m) i of
         Some inst \<Rightarrow> Inr (txt (snapshot_json rj hj (snapshot_of inst)))
       | None \<Rightarrow> Inl (ResourceNotFound (instance_uri i))) \<and>
    (\<forall>(uri, name) \<in> set (list_resources m). \<exists>text. read_resource txt rj hj caps uri m = Inr text) \<and>
    (instance_uri i \<in> fst ` set (list_resources m) \<longleftrightarrow> hm_get (im_inner m) i \<noteq> None)"
proof -
  have read: "read_resource txt rj hj caps (instance_uri i) m =
      (case hm_get (im_inner m) i of
         Some inst \<Rightarrow> Inr (txt (snapshot_json rj hj (snapshot_of inst)))
       | None \<Rightarrow> Inl (ResourceNotFound (instance_uri i)))" if "i \<noteq> []" for i
    using that imap_wfD(3) [OF assms(1), of i]
    by (auto simp: read_resource_def uri_facts read_instance_resource_def get_instance_json_def
        mcp_resolve_def resolve_or_default_def resolve_def inst_get_def entry_wf_def
        split: option.split)
  have "i \<noteq> []" if "hm_get (im_inner m) i = Some inst" for i inst
    using imap_wfD(3) [OF assms(1) that] by (simp add: entry_wf_def is_valid_instance_id_def)
  then have "\<exists>text. read_resource txt rj hj caps (instance_uri j) m = Inr text" if "j \<in> set (list_ids m)" for j
    using that read [of j] list_ids_facts(2) [OF assms(1), of j] by force
  moreover have "read_resource txt rj hj caps CAPABILITIES_URI m = Inr (txt caps)"
    "read_resource txt rj hj caps INSTANCES_URI m = Inr (txt (list_instances_json rj hj m))"
    by (simp_all add: read_resource_def uri_facts)
  moreover have "instance_uri i \<in> fst ` set (list_resources m) \<longleftrightarrow> i \<in> set (list_ids m)"
    unfolding list_resources_uris
    using uri_facts(1,2) [of i] by (simp add: image_iff uri_inj)
  ultimately show ?thesis
    using read [OF assms(2)] list_ids_facts(2) [OF assms(1), of i]
    by (auto simp: list_resources_def)
qed

lemma listed_resources_are_readable_witness:
  "read_resource (\<lambda>_. ''json'') (\<lambda>_. JNull) (\<lambda>_. JNull) JNull ''csm://instances/a'' lone_instance = Inr ''json'' \<and>
   read_resource (\<lambda>_. ''json'') (\<lambda>_. JNull) (\<lambda>_. JNull) JNull ''csm://instances/b'' lone_instance =
     Inl (ResourceNotFound ''csm://instances/b'')"
  using listed_resources_are_readable [OF lone_instance_wf, of "''a''" "\<lambda>_. ''json''" "\<lambda>_. JNull" "\<lambda>_. JNull" JNull]
    listed_resources_are_readable [OF lone_instance_wf, of "''b''" "\<lambda>_. ''json''" "\<lambda>_. JNull" "\<lambda>_. JNull" JNull]
  by (simp add: instance_uri_def INSTANCE_URI_PREFIX_def lone_instance_def imap_insert_inner imap_new_def)


subsection \<open>Sending: what reaches the channel\<close>

lemma mcp_resolve_get:
  assumes "mcp_resolve sel m = Inr snap" and "imap_wf m"
  shows "\<exists>inst. hm_get (im_inner m) (reg_instance_id (snap_register snap)) = Some inst"
  using mcp_resolve_InrD [OF assms] by metis


definition quiet_sched :: "'ch sched" where
  "quiet_sched = \<lparr>gap = (\<lambda>m. m), await_rx = (\<lambda>_ _ m. (RxElapsed, m))\<rparr>"





subsection \<open>Injecting: whose answer it is\<close>

lemma same_waiters_waiters: "same_waiters m m' \<Longrightarrow> im_waiters m' = im_waiters m"
  by (simp add: same_waiters_def)

lemmas waiters_unchanged = same_waiters_ops(2-9) [THEN same_waiters_waiters]

lemma others_fresh:
  assumes "others ts c m m'" and "waiters_wf m" and "hm_get (im_waiters m) c = None"
  shows "waiters_wf m' \<and> hm_get (im_waiters m') c = None"
  using assms(1)
proof (induction rule: rtranclp_induct)
  case base
  with assms show ?case by simp
next
  case (step n n')
  have wf: "waiters_wf n'" using other_step_wf [OF step.hyps(2)] step.IH by blast
  have "hm_get (im_waiters n') c = None"
    using step.hyps(2) step.IH wf
  proof (induction rule: other_step.induct)
    case (os_remove m i tok)
    then have "waiters_wf (drop_entry i m)" by (simp add: waiters_wf_drop_entry)
    with os_remove show ?case by (simp add: remove_if_halves fail_waiters_get) (simp add: drop_entry_def)
  next
    case (os_entry m i)
    then show ?case by (simp add: drop_entry_def)
  next
    case (os_fail m i)
    then show ?case by (simp add: fail_waiters_get)
  next
    case (os_push m i reply)
    then show ?case
      using push_inbound_waiters [of reply m i]
      by (auto simp: same_waiters_def complete_waiter_def split: option.split)
  next
    case (os_complete m reply)
    then show ?case by (auto simp: complete_waiter_def split: option.split)
  next
    case (os_queue m i reply)
    then show ?case using same_waiters_queue [of m i reply] by (simp add: same_waiters_def)
  next
    case (os_register c' m i k)
    then show ?case by (simp add: register_waiter_def Let_def)
  next
    case (os_take c' m)
    then show ?case by (simp add: take_waiter_def)
  qed (simp_all add: waiters_unchanged)
  with wf show ?case ..
qed

lemma enqueue_wait_outcome:
  assumes ok: "sched_ok ts (im_next_corr (gap sc m)) sc" and wf: "waiters_wf m"
    and nope: "hm_get (im_waiters m) (im_next_corr (gap sc m)) = None"
    and run: "enqueue_wait ts sc sel ack pl kind timeout m = (r, m')"
  shows "waiters_wf m' \<and> hm_get (im_waiters m') (im_next_corr (gap sc m)) = None \<and>
    (\<forall>i c reply. r = Inr (i, c, reply) \<longrightarrow>
       c = im_next_corr (gap sc m) \<and> corr reply = c \<and> waiter_matches kind reply)"
proof (cases "mcp_resolve sel m")
  case (Inl e)
  with run wf nope show ?thesis by (auto simp: enqueue_wait_def)
next
  case (Inr snap)
  let ?c = "im_next_corr (gap sc m)"
  let ?i = "reg_instance_id (snap_register snap)"
  let ?msg = "\<lparr>req_corr = ?c, req_ack_requested = ack, req_payload = Some pl\<rparr>"
  let ?m1 = "snd (next_corr (gap sc m))"
  have "waiters_wf ?m1" "hm_get (im_waiters ?m1) ?c = None"
    using others_fresh [OF sched_okD(1) [OF ok] wf nope]
    by (auto simp: waiters_unchanged intro: wf_intros)
  then have m1: "waiters_wf (gap sc ?m1)" "hm_get (im_waiters (gap sc ?m1)) ?c = None"
    using others_fresh [OF sched_okD(1) [OF ok]] by blast+
  obtain r2 m2 where sw: "send_and_wait_for ts sc ?i ?msg timeout kind (gap sc ?m1) = (r2, m2)"
    by fastforce
  from send_and_wait_outcome [OF _ m1(1) _ sw] m1(2) ok
  have "waiters_wf m2 \<and> hm_get (im_waiters m2) ?c = None \<and>
    (\<forall>reply. r2 = Inr reply \<longrightarrow> corr reply = ?c \<and> waiter_matches kind reply)" by simp
  moreover have "m' = m2" "r = (case r2 of Inl e \<Rightarrow> Inl (wait_error_text e) | Inr reply \<Rightarrow> Inr (?i, ?c, reply))"
    using run Inr sw by (auto simp: enqueue_wait_def next_corr_def Let_def split: sum.splits)
  ultimately show ?thesis by (auto split: sum.splits)
qed



lemma painted_inject:
  "isl (fst (inject (list_try_send 1) (answering ''a'' (paint_reply 1)) (Some ''a'') True None None
     (InjectHome 0) lone_instance)) = False"
  by code_simp


subsection \<open>Batches stop at the first failure\<close>

text \<open>\<open>ran run g steps values m m'\<close>: the steps all succeeded, one after the other, with these
  values.\<close>

inductive ran ::
    "('st \<Rightarrow> 'm \<Rightarrow> (string + json) \<times> 'm) \<Rightarrow> ('m \<Rightarrow> 'm) \<Rightarrow> 'st list \<Rightarrow> json list \<Rightarrow> 'm \<Rightarrow> 'm \<Rightarrow> bool"
  for run g where
  ran_Nil: "ran run g [] [] m m"
| ran_Cons: "run st (g m) = (Inr v, m1) \<Longrightarrow> ran run g sts vs m1 m' \<Longrightarrow>
     ran run g (st # sts) (v # vs) m m'"

inductive_simps ran_simps: "ran run g [] vs m m'" "ran run g (st # sts) vs m m'"

lemma ran_length: "ran run g sts vs m m' \<Longrightarrow> length vs = length sts"
  by (induction rule: ran.induct) simp_all

definition indexed_from :: "nat \<Rightarrow> json list \<Rightarrow> json list" where
  "indexed_from n vs =
     map (\<lambda>(i, v). JObj [(''index'', JNum (int i)), (''result'', v)]) (zip [n..<n + length vs] vs)"

lemma indexed_from_Cons:
  "indexed_from n (v # vs) =
     JObj [(''index'', JNum (int n)), (''result'', v)] # indexed_from (Suc n) vs"
proof -
  have "[n..<n + length (v # vs)] = n # [Suc n..<Suc n + length vs]"
    by (simp add: upt_rec)
  then show ?thesis by (simp add: indexed_from_def)
qed

lemma batch_loop_runs:
  "(\<exists>vs m'. ran run g sts vs m m' \<and>
      batch_loop run g i n res sts m =
        (JObj [(''instanceId'', JStr i), (''stopped'', JBool False),
               (''results'', JArr (res @ indexed_from n vs))], m')) \<or>
   (\<exists>k<length sts. \<exists>vs m1 e m'. ran run g (take k sts) vs m m1 \<and> run (sts ! k) (g m1) = (Inl e, m') \<and>
      batch_loop run g i n res sts m =
        (JObj [(''instanceId'', JStr i), (''stopped'', JBool True),
               (''failedIndex'', JNum (int (n + k))), (''error'', JStr e),
               (''results'', JArr (res @ indexed_from n vs @
                  [JObj [(''index'', JNum (int (n + k))), (''error'', JStr e)]]))], m'))"
proof (induction sts arbitrary: n res m)
  case Nil
  show ?case by (auto simp: ran_simps indexed_from_def)
next
  case (Cons st sts)
  obtain r m1 where st: "run st (g m) = (r, m1)" by fastforce
  show ?case
  proof (cases r)
    case (Inl e)
    with st show ?thesis
      by (intro disjI2 exI [of _ 0]) (auto simp: ran_simps indexed_from_def)
  next
    case (Inr v)
    let ?res = "res @ [JObj [(''index'', JNum (int n)), (''result'', v)]]"
    have step: "batch_loop run g i n res (st # sts) m = batch_loop run g i (Suc n) ?res sts m1"
      using st Inr by simp
    from Cons.IH [of m1 "Suc n" ?res] show ?thesis
    proof (elim disjE exE conjE)
      fix vs m' assume "ran run g sts vs m1 m'"
        and "batch_loop run g i (Suc n) ?res sts m1 =
          (JObj [(''instanceId'', JStr i), (''stopped'', JBool False),
                 (''results'', JArr (?res @ indexed_from (Suc n) vs))], m')"
      with st Inr step show ?thesis
        by (intro disjI1 exI [of _ "v # vs"] exI [of _ m'])
          (auto simp: indexed_from_Cons intro: ran_Cons)
    next
      fix k vs m2 e m' assume k: "k < length sts" "ran run g (take k sts) vs m1 m2"
        "run (sts ! k) (g m2) = (Inl e, m')"
        and "batch_loop run g i (Suc n) ?res sts m1 =
          (JObj [(''instanceId'', JStr i), (''stopped'', JBool True),
                 (''failedIndex'', JNum (int (Suc n + k))), (''error'', JStr e),
                 (''results'', JArr (?res @ indexed_from (Suc n) vs @
                   [JObj [(''index'', JNum (int (Suc n + k))), (''error'', JStr e)]]))], m')"
      with st Inr step show ?thesis
        by (intro disjI2 exI [of _ "Suc k"] conjI exI [of _ "v # vs"] exI [of _ m2] exI [of _ e] exI [of _ m'])
          (auto simp: indexed_from_Cons intro: ran_Cons)
    qed
  qed
qed



definition plain_step :: "string \<Rightarrow> inject_batch_step" where
  "plain_step kind =
     \<lparr>step_kind = kind, step_x = 0, step_y = 0, step_touch_kind = None, step_name = None,
      step_hold_ms = 0, step_start_x = 0, step_start_y = 0, step_end_x = 0, step_end_y = 0,
      step_duration_ms = 0, step_wait = Some False, step_wait_mode = None, step_space = None,
      step_wait_ms = None\<rparr>"



end
