(* ===== verification/Spawn.thy ===== *)
theory Spawn
  imports Mcp_Tools
begin

text \<open>
  Starting and reaping a prebuilt simulator (\<open>crates/csm-proxy/src/spawn.rs\<close>), the
  \<open>start_instance\<close> tool and the reaping half of \<open>shutdown_instance\<close> (\<open>mcp.rs\<close>).

  What the operating system does is a parameter: \<open>os_ops\<close> holds the file-system and process
  calls the code makes, over an abstract OS state. \<open>g\<close> and \<open>senv\<close> are what other tasks and the
  OS did before the supervisor's lock is taken again.
\<close>

subsection \<open>Paths\<close>

text \<open>\<open>Path::join\<close> and \<open>PathBuf::push\<close> on Unix.\<close>

definition path_join :: "string \<Rightarrow> string \<Rightarrow> string" where
  "path_join p q =
     (if q \<noteq> [] \<and> hd q = CHR ''/'' then q
      else if p = [] \<or> last p = CHR ''/'' then p @ q
      else p @ ''/'' @ q)"

definition hex_digit :: "nat \<Rightarrow> char" where
  "hex_digit n = (if n < 10 then char_of (48 + n) else char_of (87 + n))"

definition hex_byte :: "char \<Rightarrow> string" where
  "hex_byte c = [hex_digit (of_char c div 16), hex_digit (of_char c mod 16)]"

definition is_ascii_alphanumeric :: "char \<Rightarrow> bool" where
  "is_ascii_alphanumeric c \<longleftrightarrow>
     CHR ''0'' \<le> c \<and> c \<le> CHR ''9'' \<or> CHR ''A'' \<le> c \<and> c \<le> CHR ''Z'' \<or> CHR ''a'' \<le> c \<and> c \<le> CHR ''z''"

definition safe_byte :: "char \<Rightarrow> bool" where
  "safe_byte b \<longleftrightarrow> is_ascii_alphanumeric b \<or> b = CHR ''.'' \<or> b = CHR ''_'' \<or> b = CHR ''-''"

definition safe_dir_name :: "string \<Rightarrow> string" where
  "safe_dir_name iid =
     (if iid \<noteq> [] \<and> list_all safe_byte iid then iid else concat (map hex_byte iid))"

definition default_cwd :: "string \<Rightarrow> string \<Rightarrow> string" where
  "default_cwd tmp iid = path_join (path_join tmp ''csm-spawn'') (safe_dir_name iid)"

subsection \<open>Configuration\<close>

definition SPAWN_WAIT :: nat where
  "SPAWN_WAIT = 15000"

definition DEFAULT_OBSERVE_WAIT_MS :: nat where
  "DEFAULT_OBSERVE_WAIT_MS = 8000"

definition NEVER_SLEEP_TIMEOUT_MINUTES :: nat where
  "NEVER_SLEEP_TIMEOUT_MINUTES = 31"

definition SAMPLE_BOOK_FILENAME :: string where
  "SAMPLE_BOOK_FILENAME = ''CrossPoint-Reader.epub''"

definition SETTINGS_RELATIVE :: string where
  "SETTINGS_RELATIVE = ''fs_/.crosspoint/settings.json''"

text \<open>A \<open>SocketAddr\<close> is its text.\<close>

record spawn_config =
  cfg_binary :: "string option"
  cfg_extra_args :: "string list"
  cfg_listen :: string
  cfg_wait :: nat
  cfg_auto_sleep_default :: bool
  cfg_observe_wait_ms :: nat

definition spawn_config_default :: spawn_config where
  "spawn_config_default =
     \<lparr>cfg_binary = None, cfg_extra_args = [], cfg_listen = ''127.0.0.1:50051'', cfg_wait = SPAWN_WAIT,
      cfg_auto_sleep_default = False, cfg_observe_wait_ms = DEFAULT_OBSERVE_WAIT_MS\<rparr>"

definition is_configured :: "spawn_config \<Rightarrow> bool" where
  "is_configured cfg \<longleftrightarrow> cfg_binary cfg \<noteq> None"

datatype spawn_error =
    NotConfigured
  | InvalidId
  | AlreadyConnected
  | AlreadySpawned
  | SpawnFailed string
  | ExitedBeforeRegister
  | RegisterTimeout

definition spawn_error_text :: "spawn_error \<Rightarrow> string" where
  "spawn_error_text e =
     (case e of
        NotConfigured \<Rightarrow> ''spawn is not configured; set --simulator / CSM_SIMULATOR''
      | InvalidId \<Rightarrow> ''instance_id is required (1-64 bytes)''
      | AlreadyConnected \<Rightarrow> ''instance is already connected''
      | AlreadySpawned \<Rightarrow> ''instance is already spawned''
      | SpawnFailed message \<Rightarrow> ''failed to start simulator: '' @ message
      | ExitedBeforeRegister \<Rightarrow> ''simulator exited before register''
      | RegisterTimeout \<Rightarrow> ''timed out waiting for register'')"

definition spawn_argv :: "string \<Rightarrow> string \<Rightarrow> string \<Rightarrow> bool \<Rightarrow> string list \<Rightarrow> string list" where
  "spawn_argv binary listen iid headless extra_args =
     [binary] @ extra_args @ [''--sim-grpc''] @ [''--sim-grpc-addr''] @ [listen] @
     [''--sim-instance-id''] @ [iid] @ (if headless then [''--sim-headless''] else [])"

subsection \<open>The operating system\<close>

text \<open>A child process is a handle (the \<open>Child\<close> value). \<open>os_kill_and_wait\<close> is \<open>start_kill\<close>, the wait
  of at most two seconds and the drop of the handle; \<open>os_drop_child\<close> is the drop alone, which
  kills the child too, because every child is spawned with \<open>kill_on_drop\<close>.\<close>

datatype try_wait_result = StillRunning | Exited | WaitFailed

record 'os os_ops =
  os_create_dir_all :: "string \<Rightarrow> 'os \<Rightarrow> (string + unit) \<times> 'os"
  os_write :: "string \<Rightarrow> string \<Rightarrow> 'os \<Rightarrow> (string + unit) \<times> 'os"
  os_spawn :: "string list \<Rightarrow> string \<Rightarrow> 'os \<Rightarrow> (string + nat) \<times> 'os"
  os_child_pid :: "nat \<Rightarrow> 'os \<Rightarrow> nat option"
  os_try_wait :: "nat \<Rightarrow> 'os \<Rightarrow> try_wait_result \<times> 'os"
  os_kill_and_wait :: "nat \<Rightarrow> 'os \<Rightarrow> 'os"
  os_drop_child :: "nat \<Rightarrow> 'os \<Rightarrow> 'os"
  os_temp_dir :: string
  os_sample_epub :: string

definition seed_sample_book :: "'os os_ops \<Rightarrow> string \<Rightarrow> 'os \<Rightarrow> (string + string) \<times> 'os" where
  "seed_sample_book ops cwd os0 =
     (let dir = path_join (path_join cwd ''fs_'') ''books''
      in res_bind (os_create_dir_all ops dir os0) (\<lambda>_ os1.
           let path = path_join dir SAMPLE_BOOK_FILENAME
           in res_bind (os_write ops path (os_sample_epub ops) os1) (\<lambda>_ os2. (Inr path, os2))))"

definition never_sleep_body :: string where
  "never_sleep_body =
     [CHR ''{'', CHR 0x22] @ ''sleepTimeoutMinutes'' @ [CHR 0x22, CHR '':''] @
     show_nat NEVER_SLEEP_TIMEOUT_MINUTES @ [CHR ''}'', CHR 0x0A]"

definition seed_never_sleep_settings :: "'os os_ops \<Rightarrow> string \<Rightarrow> 'os \<Rightarrow> (string + string) \<times> 'os" where
  "seed_never_sleep_settings ops cwd os0 =
     (let dir = path_join (path_join cwd ''fs_'') ''.crosspoint''
      in res_bind (os_create_dir_all ops dir os0) (\<lambda>_ os1.
           let path = path_join dir ''settings.json''
           in res_bind (os_write ops path never_sleep_body os1) (\<lambda>_ os2. (Inr path, os2))))"

subsection \<open>The supervisor\<close>

record 'os spawner =
  sp_children :: "(string, nat) hash_map"
  sp_starting :: "string set"
  sp_os :: 'os

definition spawner_new :: "'os \<Rightarrow> 'os spawner" where
  "spawner_new os0 = \<lparr>sp_children = [], sp_starting = {}, sp_os = os0\<rparr>"

definition child_alive :: "'os os_ops \<Rightarrow> string \<Rightarrow> 'os spawner \<Rightarrow> bool \<times> 'os spawner" where
  "child_alive ops iid s =
     (case hm_get (sp_children s) iid of
        None \<Rightarrow> (False, s)
      | Some child \<Rightarrow>
          (case os_try_wait ops child (sp_os s) of
             (StillRunning, os1) \<Rightarrow> (True, s\<lparr>sp_os := os1\<rparr>)
           | (_, os1) \<Rightarrow>
               (False, s\<lparr>sp_os := os_drop_child ops child os1,
                         sp_children := hm_remove iid (sp_children s)\<rparr>)))"

definition is_alive :: "'os os_ops \<Rightarrow> string \<Rightarrow> 'os spawner \<Rightarrow> bool \<times> 'os spawner" where
  "is_alive ops iid s = child_alive ops iid s"

definition clear_starting :: "string \<Rightarrow> 'os spawner \<Rightarrow> 'os spawner" where
  "clear_starting iid s = s\<lparr>sp_starting := sp_starting s - {iid}\<rparr>"

definition start_reserve :: "'os os_ops \<Rightarrow> string \<Rightarrow> 'os spawner \<Rightarrow> (spawn_error + unit) \<times> 'os spawner" where
  "start_reserve ops iid s =
     (if iid \<in> sp_starting s then (Inl AlreadySpawned, s)
      else case child_alive ops iid s of
        (True, s1) \<Rightarrow> (Inl AlreadySpawned, s1)
      | (False, s1) \<Rightarrow> (Inr (), s1\<lparr>sp_starting := insert iid (sp_starting s1)\<rparr>))"

text \<open>The last block of \<open>start\<close>: a child already recorded under the id is replaced, and dropped.\<close>

definition start_record :: "'os os_ops \<Rightarrow> string \<Rightarrow> nat \<Rightarrow> 'os spawner \<Rightarrow> 'os spawner" where
  "start_record ops iid child s =
     s\<lparr>sp_starting := sp_starting s - {iid},
       sp_children := hm_insert iid child (sp_children s),
       sp_os := (case hm_get (sp_children s) iid of
                   None \<Rightarrow> sp_os s | Some old \<Rightarrow> os_drop_child ops old (sp_os s))\<rparr>"

text \<open>Everything \<open>start\<close> asks of the OS once the id is reserved: the directory, the seeds, the
  process.\<close>

definition start_effects ::
    "'os os_ops \<Rightarrow> spawn_config \<Rightarrow> string \<Rightarrow> string \<Rightarrow> bool \<Rightarrow> string option \<Rightarrow> bool \<Rightarrow> bool \<Rightarrow> 'os \<Rightarrow>
     (string + nat) \<times> 'os" where
  "start_effects ops cfg binary iid headless cwd sample_book auto_sleep os0 =
     (let workdir = (case cwd of Some path \<Rightarrow> path | None \<Rightarrow> default_cwd (os_temp_dir ops) iid)
      in res_bind (os_create_dir_all ops workdir os0) (\<lambda>_ os1.
           res_bind (if sample_book then seed_sample_book ops workdir os1 else (Inr [], os1)) (\<lambda>_ os2.
             res_bind (if \<not> auto_sleep then seed_never_sleep_settings ops workdir os2 else (Inr [], os2)) (\<lambda>_ os3.
               os_spawn ops (spawn_argv binary (cfg_listen cfg) iid headless (cfg_extra_args cfg))
                 workdir os3))))"

definition start ::
    "'os os_ops \<Rightarrow> spawn_config \<Rightarrow> ('os spawner \<Rightarrow> 'os spawner) \<Rightarrow> string \<Rightarrow> bool \<Rightarrow> string option \<Rightarrow>
     bool \<Rightarrow> bool \<Rightarrow> bool \<Rightarrow> 'os spawner \<Rightarrow> (spawn_error + nat) \<times> 'os spawner" where
  "start ops cfg g iid headless cwd already_connected sample_book auto_sleep s =
     (if \<not> is_valid_instance_id iid then (Inl InvalidId, s)
      else case cfg_binary cfg of
        None \<Rightarrow> (Inl NotConfigured, s)
      | Some binary \<Rightarrow>
          if already_connected then (Inl AlreadyConnected, s)
          else res_bind (start_reserve ops iid s) (\<lambda>_ s1.
            case start_effects ops cfg binary iid headless cwd sample_book auto_sleep (sp_os s1) of
              (Inl message, os1) \<Rightarrow>
                (Inl (SpawnFailed message), clear_starting iid (g (s1\<lparr>sp_os := os1\<rparr>)))
            | (Inr child, os1) \<Rightarrow>
                (let pid = (case os_child_pid ops child os1 of Some p \<Rightarrow> p | None \<Rightarrow> 0)
                 in (Inr pid, start_record ops iid child (g (s1\<lparr>sp_os := os1\<rparr>))))))"

definition reap :: "'os os_ops \<Rightarrow> string \<Rightarrow> 'os spawner \<Rightarrow> 'os spawner" where
  "reap ops iid s =
     (let s1 = s\<lparr>sp_starting := sp_starting s - {iid}, sp_children := hm_remove iid (sp_children s)\<rparr>
      in case hm_get (sp_children s) iid of
           None \<Rightarrow> s1
         | Some child \<Rightarrow> s1\<lparr>sp_os := os_kill_and_wait ops child (sp_os s1)\<rparr>)"

text \<open>The ids are read once; each child is then reaped in turn, with the other tasks running in
  between.\<close>

definition reap_all :: "'os os_ops \<Rightarrow> ('os spawner \<Rightarrow> 'os spawner) \<Rightarrow> 'os spawner \<Rightarrow> 'os spawner" where
  "reap_all ops g s = fold (\<lambda>iid s'. reap ops iid (g s')) (map fst (sp_children s)) s"

text \<open>Reaping for \<open>shutdown_instance\<close>: only a valid id, or the process default.\<close>

definition reap_if_spawned :: "'os os_ops \<Rightarrow> string option \<Rightarrow> 'ch imap \<Rightarrow> 'os spawner \<Rightarrow> 'os spawner" where
  "reap_if_spawned ops sel m s =
     (case sel of
        Some iid \<Rightarrow> if is_valid_instance_id iid then reap ops iid s else s
      | None \<Rightarrow> (case default_instance m of Some iid \<Rightarrow> reap ops iid s | None \<Rightarrow> s))"

subsection \<open>Starting an instance\<close>

partial_function (option) register_loop ::
    "'os os_ops \<Rightarrow> (register \<Rightarrow> json) \<Rightarrow> (heartbeat \<Rightarrow> json) \<Rightarrow> 'ch env \<Rightarrow> (nat \<Rightarrow> 'os spawner \<Rightarrow> 'os spawner) \<Rightarrow>
     (nat \<Rightarrow> nat) \<Rightarrow> nat \<Rightarrow> string \<Rightarrow> nat \<Rightarrow> bool \<Rightarrow> bool \<Rightarrow> nat \<Rightarrow> 'ch run \<Rightarrow> 'os spawner \<Rightarrow>
     ((spawn_error + json) \<times> 'ch run \<times> 'os spawner) option" where
  "register_loop ops rj hj env senv clk deadline iid pid sample_book auto_sleep j r s =
     (case locked env (peek (inst_get iid)) r of
        (Some snap, r1) \<Rightarrow>
          Some (Inr (JObj [(''instanceId'', JStr (reg_instance_id (snap_register snap))),
                           (''pid'', JNum (int pid)), (''register'', rj (snap_register snap)),
                           (''lastHeartbeat'', jopt hj (snap_last_heartbeat snap)),
                           (''sampleBook'', JBool sample_book), (''autoSleep'', JBool auto_sleep)]),
                r1, s)
      | (None, r1) \<Rightarrow>
          (let (alive, s1) = child_alive ops iid (senv j s)
           in if \<not> alive then Some (Inl ExitedBeforeRegister, r1, reap ops iid s1)
              else if deadline \<le> clk j then Some (Inl RegisterTimeout, r1, reap ops iid s1)
              else register_loop ops rj hj env senv clk deadline iid pid sample_book auto_sleep
                     (Suc j) r1 s1))"

declare register_loop.simps [code]

definition start_instance_json ::
    "'os os_ops \<Rightarrow> spawn_config \<Rightarrow> (register \<Rightarrow> json) \<Rightarrow> (heartbeat \<Rightarrow> json) \<Rightarrow> 'ch env \<Rightarrow>
     (nat \<Rightarrow> 'os spawner \<Rightarrow> 'os spawner) \<Rightarrow> (nat \<Rightarrow> nat) \<Rightarrow> string \<Rightarrow> bool \<Rightarrow> string option \<Rightarrow> bool \<Rightarrow> bool \<Rightarrow>
     'ch run \<Rightarrow> 'os spawner \<Rightarrow> ((string + json) \<times> 'ch run \<times> 'os spawner) option" where
  "start_instance_json ops cfg rj hj env senv clk iid headless cwd sample_book auto_sleep r s =
     (if \<not> is_valid_instance_id iid then Some (Inl (spawn_error_text InvalidId), r, s)
      else
        let (found, r1) = locked env (peek (inst_get iid)) r
        in case start ops cfg (senv 0) iid headless cwd (found \<noteq> None) sample_book auto_sleep s of
             (Inl e, s1) \<Rightarrow> Some (Inl (spawn_error_text e), r1, s1)
           | (Inr pid, s1) \<Rightarrow>
               map_option (\<lambda>(res, r2, s2).
                   (case res of Inl e \<Rightarrow> Inl (spawn_error_text e) | Inr body \<Rightarrow> Inr body, r2, s2))
                 (register_loop ops rj hj env senv clk (clk 0 + cfg_wait cfg) iid pid
                    sample_book auto_sleep 1 r1 s1))"

subsection \<open>Starting and reaping, step by step\<close>

lemma child_alive_frame:
  assumes "child_alive ops iid s = (b, s')"
  shows "sp_starting s' = sp_starting s \<and>
    (\<forall>j. hm_get (sp_children s') j =
       (if j = iid \<and> \<not> b then None else hm_get (sp_children s) j)) \<and>
    (b \<longrightarrow> hm_get (sp_children s) iid \<noteq> None) \<and>
    (\<not> b \<longrightarrow> (\<forall>c. hm_get (sp_children s) iid = Some c \<longrightarrow> fst (os_try_wait ops c (sp_os s)) \<noteq> StillRunning))"
  using assms
  by (auto simp: child_alive_def split: option.splits prod.splits try_wait_result.splits)

lemma start_reserve_cases:
  assumes "start_reserve ops iid s = (r, s1)"
  obtains (busy) "r = Inl AlreadySpawned" "sp_starting s1 = sp_starting s"
      "hm_get (sp_children s1) = hm_get (sp_children s)"
  | (reserved) "r = Inr ()" "iid \<notin> sp_starting s" "sp_starting s1 = insert iid (sp_starting s)"
      "hm_get (sp_children s1) = (hm_get (sp_children s))(iid := None)"
      "\<And>c. hm_get (sp_children s) iid = Some c \<Longrightarrow> fst (os_try_wait ops c (sp_os s)) \<noteq> StillRunning"
proof (cases "iid \<in> sp_starting s")
  case True
  with assms busy show ?thesis by (auto simp: start_reserve_def)
next
  case False
  obtain b s2 where ca: "child_alive ops iid s = (b, s2)" by fastforce
  note frame = child_alive_frame [OF ca]
  show ?thesis
  proof (cases b)
    case True
    with False assms frame ca show ?thesis by (intro busy) (auto simp: start_reserve_def fun_eq_iff)
  next
    case dead: False
    with False assms frame ca show ?thesis
      by (intro reserved) (auto simp: start_reserve_def fun_eq_iff)
  qed
qed

text \<open>C29. A start settles cleanly: undisturbed, it leaves no reservation behind however it ends, and
  touches no other id's child; it succeeds only for a valid id, with a configured binary, for an
  instance not connected, not being started, whose earlier child (if any) has ended, and then
  the new child is recorded; an error keeps at most the child that was there, and the
  refusals that need no look at the children change nothing.\<close>

theorem start_settles:
  "case start ops cfg (\<lambda>s. s) iid headless cwd connected sample_book auto_sleep s of (r, s') \<Rightarrow>
     sp_starting s' = sp_starting s \<and>
     (\<forall>j. j \<noteq> iid \<longrightarrow> hm_get (sp_children s') j = hm_get (sp_children s) j) \<and>
     (case r of
        Inr pid \<Rightarrow>
          is_valid_instance_id iid \<and> cfg_binary cfg \<noteq> None \<and> \<not> connected \<and> iid \<notin> sp_starting s \<and>
          (\<forall>c. hm_get (sp_children s) iid = Some c \<longrightarrow> fst (os_try_wait ops c (sp_os s)) \<noteq> StillRunning) \<and>
          hm_get (sp_children s') iid \<noteq> None
      | Inl e \<Rightarrow>
          hm_get (sp_children s') iid \<in> {None, hm_get (sp_children s) iid} \<and>
          (e \<in> {InvalidId, NotConfigured, AlreadyConnected} \<longrightarrow> s' = s))"
proof (cases "is_valid_instance_id iid \<and> cfg_binary cfg \<noteq> None \<and> \<not> connected")
  case False
  then show ?thesis by (auto simp: start_def split: option.split)
next
  case True
  then obtain binary where ok: "is_valid_instance_id iid" "cfg_binary cfg = Some binary" "\<not> connected"
    by auto
  obtain r1 s1 where rs: "start_reserve ops iid s = (r1, s1)" by fastforce
  then show ?thesis
  proof (cases rule: start_reserve_cases)
    case busy
    with rs ok show ?thesis by (simp add: start_def)
  next
    case reserved
    obtain eff os1 where eff: "start_effects ops cfg binary iid headless cwd sample_book auto_sleep (sp_os s1)
        = (eff, os1)" by fastforce
    from reserved ok rs eff show ?thesis
      by (cases eff) (auto simp: start_def start_record_def clear_starting_def Let_def)
  qed
qed

text \<open>C30. A reserved id admits no second start: from the reservation until the start ends, another start
  of the same id is refused without any effect; but \<open>reap\<close> (which \<open>shutdown_instance\<close> calls for
  any valid id) drops the reservation, and then a second start is admitted while the first is
  still under way.\<close>

theorem reservation_excludes_until_reaped:
  assumes "start_reserve ops iid s = (Inr (), s1)"
  shows "iid \<in> sp_starting s1 \<and>
    (\<exists>e. start ops cfg g iid headless cwd connected sample_book auto_sleep s1 = (Inl e, s1)) \<and>
    fst (start_reserve ops iid (reap ops iid s1)) = Inr ()"
proof -
  from assms have r: "iid \<in> sp_starting s1" "hm_get (sp_children s1) iid = None"
    by (cases rule: start_reserve_cases, simp, simp)+
  then have "start_reserve ops iid s1 = (Inl AlreadySpawned, s1)" by (simp add: start_reserve_def)
  with r show ?thesis
    by (auto simp: start_def start_reserve_def reap_def child_alive_def split: option.split)
qed

lemma reap_facts:
  "sp_starting (reap ops iid s) = sp_starting s - {iid}"
  "sp_children (reap ops iid s) = hm_remove iid (sp_children s)"
  "sp_os (reap ops iid s) =
     (case hm_get (sp_children s) iid of None \<Rightarrow> sp_os s | Some c \<Rightarrow> os_kill_and_wait ops c (sp_os s))"
  by (simp_all add: reap_def Let_def split: option.split)

lemma hm_remove_head:
  assumes "hm_wf ((k, v) # m)" shows "hm_remove k ((k, v) # m) = m"
  using assms by (force simp: hm_wf_def AList.delete_eq intro!: filter_True)

lemma reap_all_from:
  assumes "hm_wf cs" and "sp_children s = cs"
  shows "fold (reap ops) (map fst cs) s =
    \<lparr>sp_children = [], sp_starting = sp_starting s - fst ` set cs,
     sp_os = fold (os_kill_and_wait ops) (map snd cs) (sp_os s)\<rparr>"
  using assms
proof (induction cs arbitrary: s)
  case Nil
  then show ?case by (cases s) simp
next
  case (Cons c cs)
  obtain k v where c: "c = (k, v)" by fastforce
  have "sp_children (reap ops k s) = cs" "hm_wf cs"
    using Cons.prems hm_remove_head [of k v cs] by (auto simp: c reap_facts hm_wf_def)
  from Cons.IH [OF this(2,1)]
  have "fold (reap ops) (map fst (c # cs)) s =
      \<lparr>sp_children = [], sp_starting = sp_starting (reap ops k s) - fst ` set cs,
       sp_os = fold (os_kill_and_wait ops) (map snd cs) (sp_os (reap ops k s))\<rparr>" by (simp add: c)
  moreover have "sp_starting (reap ops k s) - fst ` set cs = sp_starting s - fst ` set (c # cs)"
    by (auto simp: c reap_facts)
  moreover have "sp_os (reap ops k s) = os_kill_and_wait ops v (sp_os s)"
    by (simp add: reap_facts Cons.prems(2) c)
  ultimately show ?case by (simp add: c)
qed

text \<open>Reaping everything kills each recorded child exactly once and forgets them all, whatever the
  order in which the hash map lists them.\<close>

lemma reap_all_kills_each_child_once:
  assumes "hm_wf (sp_children s)"
  shows "reap_all ops (\<lambda>s. s) s =
    \<lparr>sp_children = [], sp_starting = sp_starting s - fst ` set (sp_children s),
     sp_os = fold (os_kill_and_wait ops) (map snd (sp_children s)) (sp_os s)\<rparr>"
  using reap_all_from [OF assms refl] by (simp add: reap_all_def)


text \<open>An operating system that records what it is asked and lets everything succeed, at which the
  witnesses evaluate.\<close>

definition log_os :: "string list os_ops" where
  "log_os =
     \<lparr>os_create_dir_all = (\<lambda>p l. (Inr (), l @ [''mkdir '' @ p])),
      os_write = (\<lambda>p _ l. (Inr (), l @ [''write '' @ p])),
      os_spawn = (\<lambda>argv _ l. (Inr (length l), l @ [''spawn'' ])),
      os_child_pid = (\<lambda>c _. Some (100 + c)),
      os_try_wait = (\<lambda>_ l. (StillRunning, l)),
      os_kill_and_wait = (\<lambda>c l. l @ [''kill '' @ show_nat c]),
      os_drop_child = (\<lambda>c l. l @ [''drop '' @ show_nat c]),
      os_temp_dir = ''/tmp'', os_sample_epub = ''PK''\<rparr>"

lemma log_os_kill:
  "os_kill_and_wait log_os c l = l @ [''kill '' @ show_nat c]"
  "show_nat 3 = ''3''" "show_nat 4 = ''4''"
  by (simp add: log_os_def) (code_simp, code_simp)

definition sim_config :: spawn_config where
  "sim_config = spawn_config_default\<lparr>cfg_binary := Some ''/opt/sim'', cfg_wait := 200\<rparr>"

theorem start_settles_witness:
  "case start log_os sim_config (\<lambda>s. s) ''a'' True None False True False (spawner_new []) of
     (Inr pid, s') \<Rightarrow> sp_starting s' = {} \<and> hm_get (sp_children s') ''a'' \<noteq> None
   | _ \<Rightarrow> False"
proof -
  let ?r = "start log_os sim_config (\<lambda>s. s) ''a'' True None False True False (spawner_new [])"
  have "\<not> isl (fst ?r)" by code_simp
  with start_settles [where ops = log_os and cfg = sim_config and iid = "''a''" and headless = True
      and cwd = None and connected = False and sample_book = True and auto_sleep = False and s = "spawner_new []"]
  show ?thesis by (auto simp: spawner_new_def isl_def split: prod.splits sum.splits)
qed

theorem reservation_excludes_until_reaped_witness:
  "\<exists>s1. start_reserve log_os ''a'' (spawner_new []) = (Inr (), s1) \<and>
     fst (start_reserve log_os ''a'' (reap log_os ''a'' s1)) = Inr ()"
proof -
  obtain s1 where "start_reserve log_os ''a'' (spawner_new []) = (Inr (), s1)"
    by (simp add: start_reserve_def spawner_new_def child_alive_def)
  with reservation_excludes_until_reaped [OF this, of undefined] show ?thesis by blast
qed

lemma reap_all_kills_each_child_once_witness:
  "sp_os (reap_all log_os (\<lambda>s. s) \<lparr>sp_children = [(''a'', 3), (''b'', 4)], sp_starting = {}, sp_os = []\<rparr>) =
     [''kill 3'', ''kill 4'']"
  using reap_all_kills_each_child_once
    [of "\<lparr>sp_children = [(''a'', 3), (''b'', 4)], sp_starting = {}, sp_os = []\<rparr>" log_os]
  by (simp add: hm_wf_def log_os_kill)

subsection \<open>A start request ends\<close>

definition poll_clock :: "(nat \<Rightarrow> nat) \<Rightarrow> bool" where
  "poll_clock clk \<longleftrightarrow> (\<forall>j\<ge>1. clk j + 100 \<le> clk (Suc j))"

lemma register_loop_returns:
  assumes "poll_clock clk" and "1 \<le> j"
  shows "\<exists>res r' s'. register_loop ops rj hj env senv clk deadline iid pid sample_book auto_sleep j r s =
      Some (res, r', s') \<and>
    (case res of
       Inr body \<Rightarrow> \<exists>snap. inst_get iid (run_map r') = Some snap \<and>
         jget ''instanceId'' body = Some (JStr (reg_instance_id (snap_register snap))) \<and>
         jget ''pid'' body = Some (JNum (int pid))
     | Inl e \<Rightarrow> (e = ExitedBeforeRegister \<or> e = RegisterTimeout) \<and> inst_get iid (run_map r') = None \<and>
         hm_get (sp_children s') iid = None \<and> iid \<notin> sp_starting s')"
  using assms(2)
proof (induction "deadline - clk j" arbitrary: j r s rule: less_induct)
  case less
  let ?m = "env (run_step r) (run_map r)"
  show ?case
  proof (cases "inst_get iid ?m")
    case (Some snap)
    then show ?thesis by (subst register_loop.simps) (simp add: locked_eq)
  next
    case None
    obtain alive s1 where ca: "child_alive ops iid (senv j s) = (alive, s1)" by fastforce
    show ?thesis
    proof (cases "\<not> alive \<or> deadline \<le> clk j")
      case True
      with None ca show ?thesis by (subst register_loop.simps) (auto simp: locked_eq reap_facts)
    next
      case False
      moreover have "clk j + 100 \<le> clk (Suc j)" using assms(1) less.prems by (simp add: poll_clock_def)
      ultimately have "deadline - clk (Suc j) < deadline - clk j" by linarith
      from less.hyps [OF this, of "\<lparr>run_map = ?m, run_step = Suc (run_step r)\<rparr>" s1] None ca False
      show ?thesis by (subst register_loop.simps) (simp add: locked_eq)
    qed
  qed
qed

text \<open>C13. Every start request ends: as the clock advances while the loop sleeps, whatever the other
  tasks, the child and the OS do, the call answers; success means the instance is connected at
  that moment under the id asked for, and a child that exited or never registered has been
  reaped: it is neither recorded nor reserved.\<close>

theorem start_instance_settles:
  assumes "poll_clock clk"
  shows "\<exists>res r' s'. start_instance_json ops cfg rj hj env senv clk iid headless cwd sample_book auto_sleep r s =
      Some (res, r', s') \<and>
    (case res of
       Inr body \<Rightarrow> is_valid_instance_id iid \<and>
         (\<exists>snap. inst_get iid (run_map r') = Some snap \<and>
            jget ''instanceId'' body = Some (JStr (reg_instance_id (snap_register snap))))
     | Inl text \<Rightarrow> (\<exists>e. text = spawn_error_text e \<and>
         (e = ExitedBeforeRegister \<or> e = RegisterTimeout \<longrightarrow>
            hm_get (sp_children s') iid = None \<and> iid \<notin> sp_starting s')))"
proof (cases "is_valid_instance_id iid")
  case False
  then show ?thesis by (auto simp: start_instance_json_def)
next
  case valid: True
  let ?m = "env (run_step r) (run_map r)"
  let ?r1 = "\<lparr>run_map = ?m, run_step = Suc (run_step r)\<rparr>"
  obtain started s1 where st: "start ops cfg (senv 0) iid headless cwd (inst_get iid ?m \<noteq> None) sample_book
      auto_sleep s = (started, s1)" by fastforce
  show ?thesis
  proof (cases started)
    case (Inl e)
    have "e \<noteq> ExitedBeforeRegister \<and> e \<noteq> RegisterTimeout"
      using st Inl
      by (auto simp: start_def start_reserve_def Let_def split: if_splits option.splits prod.splits sum.splits bool.splits)
    with Inl st valid show ?thesis by (auto simp: start_instance_json_def locked_eq intro!: exI [of _ e])
  next
    case (Inr pid)
    from register_loop_returns [OF assms order_refl, of ops rj hj env senv "clk 0 + cfg_wait cfg" iid pid sample_book
        auto_sleep ?r1 s1]
    obtain res r' s' where loop: "register_loop ops rj hj env senv clk (clk 0 + cfg_wait cfg) iid pid
        sample_book auto_sleep 1 ?r1 s1 = Some (res, r', s')"
      and out: "case res of
         Inr body \<Rightarrow> \<exists>snap. inst_get iid (run_map r') = Some snap \<and>
           jget ''instanceId'' body = Some (JStr (reg_instance_id (snap_register snap))) \<and>
           jget ''pid'' body = Some (JNum (int pid))
       | Inl e \<Rightarrow> (e = ExitedBeforeRegister \<or> e = RegisterTimeout) \<and> inst_get iid (run_map r') = None \<and>
           hm_get (sp_children s') iid = None \<and> iid \<notin> sp_starting s'" by auto
    have "start_instance_json ops cfg rj hj env senv clk iid headless cwd sample_book auto_sleep r s =
        Some (case res of Inl e \<Rightarrow> Inl (spawn_error_text e) | Inr body \<Rightarrow> Inr body, r', s')"
      using valid st Inr loop by (simp add: start_instance_json_def locked_eq del: One_nat_def)
    with out valid show ?thesis by (cases res) auto
  qed
qed


definition poll_times :: "nat \<Rightarrow> nat" where
  "poll_times j = 100 * j"

theorem start_instance_settles_witness:
  "\<exists>r' s'. start_instance_json log_os sim_config (\<lambda>_. JNull) (\<lambda>_. JNull) (\<lambda>_ m. m) (\<lambda>_ s. s) poll_times ''b''
       True None False True \<lparr>run_map = lone_instance, run_step = 0\<rparr> (spawner_new []) =
     Some (Inl ''timed out waiting for register'', r', s') \<and>
     hm_get (sp_children s') ''b'' = None \<and> ''b'' \<notin> sp_starting s'"
proof -
  let ?r = "start_instance_json log_os sim_config (\<lambda>_. JNull) (\<lambda>_. JNull) (\<lambda>_ m. m) (\<lambda>_ s. s) poll_times ''b''
       True None False True \<lparr>run_map = lone_instance, run_step = 0\<rparr> (spawner_new [])"
  have answer: "map_option fst ?r = Some (Inl (spawn_error_text RegisterTimeout))" by code_simp
  have only: "spawn_error_text e = spawn_error_text RegisterTimeout \<longleftrightarrow> e = RegisterTimeout" for e
    by (cases e) (simp_all add: spawn_error_text_def)
  have said: "spawn_error_text RegisterTimeout = ''timed out waiting for register''"
    by (simp add: spawn_error_text_def)
  have "poll_clock poll_times" by (simp add: poll_clock_def poll_times_def)
  from start_instance_settles [OF this, of log_os sim_config "\<lambda>_. JNull" "\<lambda>_. JNull" "\<lambda>_ m. m" "\<lambda>_ s. s"
      "''b''" True None False True "\<lparr>run_map = lone_instance, run_step = 0\<rparr>" "spawner_new []"] answer
  show ?thesis unfolding said [symmetric] by (auto simp: only eq_commute [of "spawn_error_text RegisterTimeout"])
qed

subsection \<open>Directory names\<close>

lemma hex_digit_alphanumeric: "n < 16 \<Longrightarrow> is_ascii_alphanumeric (hex_digit n)"
  by (auto simp: is_ascii_alphanumeric_def hex_digit_def less_eq_char_def)

lemma hex_digit_safe: "n < 16 \<Longrightarrow> safe_byte (hex_digit n)"
  by (simp add: safe_byte_def hex_digit_alphanumeric)

lemma hex_digit_inj: "m < 16 \<Longrightarrow> n < 16 \<Longrightarrow> hex_digit m = hex_digit n \<Longrightarrow> m = n"
  by (auto simp: hex_digit_def split: if_splits dest!: arg_cong [of _ _ "of_char :: char \<Rightarrow> nat"])

lemma of_char_digits: "(of_char c :: nat) div 16 < 16" "(of_char c :: nat) mod 16 < 16"
  using less_mult_imp_div_less [of "of_char c" 16 16] nat_of_char_less_256 [of c] by simp_all

lemma hex_byte_inj: "hex_byte c = hex_byte d \<Longrightarrow> c = d"
proof -
  assume h: "hex_byte c = hex_byte d"
  have "(of_char c :: nat) div 16 = of_char d div 16" "(of_char c :: nat) mod 16 = of_char d mod 16"
    using h hex_digit_inj of_char_digits by (auto simp: hex_byte_def)
  then have "(of_char c :: nat) = of_char d" by (metis div_mult_mod_eq)
  then show "c = d" by simp
qed

lemma concat_hex_inj: "concat (map hex_byte xs) = concat (map hex_byte ys) \<Longrightarrow> xs = ys"
proof (induction xs arbitrary: ys)
  case Nil
  then show ?case by (cases ys) (auto simp: hex_byte_def)
next
  case (Cons x xs)
  then obtain y zs where ys: "ys = y # zs" by (cases ys) (auto simp: hex_byte_def)
  have "length (hex_byte x) = length (hex_byte y)" by (simp add: hex_byte_def)
  with Cons.prems ys have "hex_byte x = hex_byte y" "concat (map hex_byte xs) = concat (map hex_byte zs)"
    by simp_all
  with Cons.IH ys show ?case by (auto dest: hex_byte_inj)
qed

lemma concat_hex_safe: "list_all safe_byte (concat (map hex_byte xs))"
  by (induction xs) (simp_all add: hex_byte_def hex_digit_safe of_char_digits)

text \<open>C34. The default working directory of an id is one path component under the spawn directory: the
  name made from a non-empty id has only letters, digits, dots, underscores and hyphens; two
  ids share it only if one of them is the hexadecimal form of the other; and it is \<open>..\<close> (which
  leaves the spawn directory) only for the id \<open>..\<close> itself, which is accepted.\<close>

theorem safe_dir_name_is_one_component:
  assumes "i \<noteq> []"
  shows "safe_dir_name i \<noteq> [] \<and> list_all safe_byte (safe_dir_name i) \<and> CHR ''/'' \<notin> set (safe_dir_name i) \<and>
    (safe_dir_name i = safe_dir_name j \<longrightarrow> i = j \<or> i = concat (map hex_byte j) \<or> j = concat (map hex_byte i)) \<and>
    (safe_dir_name i = ''..'' \<longleftrightarrow> i = ''..'') \<and> is_valid_instance_id ''..''"
proof -
  have slash: "\<not> safe_byte (CHR ''/'')"
    by (simp add: safe_byte_def is_ascii_alphanumeric_def less_eq_char_def)
  have safe: "list_all safe_byte (safe_dir_name i)" by (simp add: safe_dir_name_def concat_hex_safe)
  with slash have "CHR ''/'' \<notin> set (safe_dir_name i)" by (auto simp: list_all_iff)
  moreover have "safe_dir_name i \<noteq> []"
    using assms by (cases i) (auto simp: safe_dir_name_def hex_byte_def)
  moreover have "i = j \<or> i = concat (map hex_byte j) \<or> j = concat (map hex_byte i)"
    if "safe_dir_name i = safe_dir_name j"
    using that concat_hex_inj [of i j] by (simp add: safe_dir_name_def split: if_split_asm)
  moreover have "safe_dir_name i = ''..'' \<longleftrightarrow> i = ''..''"
  proof
    assume h: "safe_dir_name i = ''..''"
    show "i = ''..''"
    proof (rule ccontr)
      assume "i \<noteq> ''..''"
      with h obtain x xs where "hex_byte x @ concat (map hex_byte xs) = ''..''"
        using assms by (cases i) (auto simp: safe_dir_name_def split: if_splits)
      then have "hex_digit (of_char x div 16) = CHR ''.''" by (simp add: hex_byte_def)
      with hex_digit_alphanumeric [OF of_char_digits(1) [of x]] show False
        by (simp add: is_ascii_alphanumeric_def less_eq_char_def)
    qed
  qed (simp add: safe_dir_name_def safe_byte_def)
  ultimately show ?thesis
    using safe by (simp add: is_valid_instance_id_def INSTANCE_ID_MAX_LEN_def)
qed

theorem safe_dir_name_is_one_component_witness:
  "list_all safe_byte (safe_dir_name ''../x'') \<and> safe_dir_name ''../x'' = ''2e2e2f78''"
proof
  show "list_all safe_byte (safe_dir_name ''../x'')"
    using safe_dir_name_is_one_component [of "''../x''" "[]"] by simp
  show "safe_dir_name ''../x'' = ''2e2e2f78''" by code_simp
qed


end
