(* ===== verification/Call_Frame.thy ===== *)
theory Call_Frame
  imports Spawn
begin

text \<open>
  What a tool call may do to the instance map, proved once for every relation that a call respects.
  A call is built from few operations on the map, with the other tasks running between them. The
  locale \<open>call_frame\<close> takes a reflexive and transitive relation \<open>R\<close> that contains these operations
  (the sends and the changes of an entry only for ids that \<open>may\<close> be touched), and shows that a
  whole call stays in \<open>R\<close> when the other tasks do.

  It is interpreted twice: with the steps of the process (\<open>map_step\<close>), which shows that calls act only
  through the operations of the map, and with \<open>spares j\<close>, which shows that a call for one instance
  leaves the entry and the channel of every other instance alone.
\<close>

subsection \<open>What the other tasks do\<close>

definition others_in :: "('ch imap \<Rightarrow> 'ch imap \<Rightarrow> bool) \<Rightarrow> 'ch sched \<Rightarrow> bool" where
  "others_in R sc \<longleftrightarrow> (\<forall>m. R m (gap sc m)) \<and> (\<forall>rx t m. R m (snd (await_rx sc rx t m)))"

definition env_in :: "('ch imap \<Rightarrow> 'ch imap \<Rightarrow> bool) \<Rightarrow> 'ch env \<Rightarrow> bool" where
  "env_in R env \<longleftrightarrow> (\<forall>n m. R m (env n m))"

lemma others_inD:
  assumes "others_in R sc"
  shows "R m (gap sc m)" and "await_rx sc rx t m = (res, m') \<Longrightarrow> R m m'"
  using assms unfolding others_in_def by (auto dest: spec [of _ rx]) (metis snd_conv)

lemma env_inD: "env_in R env \<Longrightarrow> R m (env n m)"
  by (simp add: env_in_def)

text \<open>Where the first resolution of a call leads.\<close>

definition aims :: "(string \<Rightarrow> bool) \<Rightarrow> string option \<Rightarrow> 'ch imap \<Rightarrow> bool" where
  "aims may sel m \<longleftrightarrow>
     (\<forall>snap. mcp_resolve sel m = Inr snap \<longrightarrow> may (reg_instance_id (snap_register snap)))"

lemma aimsD: "aims may sel m \<Longrightarrow> mcp_resolve sel m = Inr snap \<Longrightarrow> may (reg_instance_id (snap_register snap))"
  by (simp add: aims_def)

subsection \<open>The contract\<close>

locale call_frame =
  fixes ts :: "'ch try_send_fn"
    and R :: "'ch imap \<Rightarrow> 'ch imap \<Rightarrow> bool"
    and inv :: "'ch imap \<Rightarrow> bool"
    and may :: "string \<Rightarrow> bool"
  assumes R_refl: "R m m"
    and R_trans: "R x y \<Longrightarrow> R y z \<Longrightarrow> R x z"
    and R_inv: "R x y \<Longrightarrow> inv x \<Longrightarrow> inv y"
    and R_corr: "R m (snd (next_corr m))"
    and R_register: "R m (snd (register_waiter i c k m))"
    and R_take: "R m (take_waiter c m)"
    and R_send: "inv m \<Longrightarrow> may i \<Longrightarrow> R m (snd (try_send ts i msg m))"
    and R_mask: "inv m \<Longrightarrow> may i \<Longrightarrow> R m (set_read_mask i paths m)"
    and R_exclude: "inv m \<Longrightarrow> may i \<Longrightarrow> R m (set_exclude_log_components i comps m)"
    and R_recv: "inv m \<Longrightarrow> may i \<Longrightarrow> R m (snd (try_recv_inbound i m))"
    and may_named: "inv m \<Longrightarrow> may i \<Longrightarrow> aims may (Some i) m"
begin

lemma gap_then: "others_in R sc \<Longrightarrow> R m0 m \<Longrightarrow> R m0 (gap sc m)"
  using R_trans others_inD(1) by blast

lemma env_then: "env_in R env \<Longrightarrow> R m0 m \<Longrightarrow> R m0 (env n m)"
  using R_trans env_inD by blast

lemma after_gap_ops:
  assumes "others_in R sc"
  shows "R m0 m \<Longrightarrow> R m0 (snd (next_corr (gap sc m)))"
    and "R m0 m \<Longrightarrow> R m0 (snd (register_waiter i c k (gap sc m)))"
    and "inv m0 \<Longrightarrow> R m0 m \<Longrightarrow> may i \<Longrightarrow> R m0 (snd (try_send ts i msg (gap sc m)))"
    and "inv m0 \<Longrightarrow> R m0 m \<Longrightarrow> may i \<Longrightarrow> R m0 (set_read_mask i paths (gap sc m))"
    and "inv m0 \<Longrightarrow> R m0 m \<Longrightarrow> may i \<Longrightarrow> R m0 (set_exclude_log_components i comps (gap sc m))"
  using gap_then [OF assms] R_trans R_inv R_corr R_register R_send R_mask R_exclude by metis+

lemma enqueue_R:
  assumes ok: "others_in R sc" and "inv m" and aim: "aims may sel m"
    and run: "enqueue ts sc sel ack pl m = (r, m')"
  shows "R m m'"
proof (cases "mcp_resolve sel m")
  case (Inl e)
  with run R_refl show ?thesis by (simp add: enqueue_def)
next
  case (Inr snap)
  let ?i = "reg_instance_id (snap_register snap)"
  let ?m1 = "snd (next_corr (gap sc m))"
  have "R m (snd (try_send ts ?i msg (gap sc ?m1)))" for msg
    by (intro after_gap_ops [OF ok] R_refl assms(2) aimsD [OF aim Inr])
  moreover have "\<exists>msg. m' = snd (try_send ts ?i msg (gap sc ?m1))"
    using run Inr by (auto simp: enqueue_def next_corr_def Let_def split: prod.splits sum.splits) (metis snd_conv)+
  ultimately show ?thesis by auto
qed

lemma send_and_wait_for_R:
  assumes ok: "others_in R sc" and "inv m" and "may i"
    and run: "send_and_wait_for ts sc i msg t k m = (r, m')"
  shows "R m m'"
proof (cases "inst_get i m = None")
  case True
  with run R_refl show ?thesis by (simp add: send_and_wait_for_def)
next
  case False
  let ?c = "req_corr msg"
  obtain rx m1 where reg: "register_waiter i ?c k (gap sc m) = (rx, m1)" by fastforce
  obtain sent m2 where snt: "try_send ts i msg (gap sc m1) = (sent, m2)" by fastforce
  obtain rr m3 where aw: "await_rx sc rx t m2 = (rr, m3)" by fastforce
  have s1: "R m m1"
    using after_gap_ops(2) [OF ok, where m0 = m and m = m and i = i and c = ?c and k = k] R_refl by (simp add: reg)
  have s2: "R m m2"
    using after_gap_ops(3) [OF ok assms(2) s1 assms(3), where msg = msg] by (simp add: snt)
  have s3: "R m m3" by (rule R_trans [OF s2 others_inD(2) [OF ok aw]])
  have "R m (take_waiter ?c n)" if "R m n" for n using that R_take by (rule R_trans)
  with s2 s3 run False show ?thesis
    by (cases sent; cases "projl sent"; cases rr)
      (auto simp: send_and_wait_for_def reg snt aw Let_def split: sum.splits try_send_error.splits)
qed

lemma enqueue_wait_R:
  assumes ok: "others_in R sc" and "inv m" and aim: "aims may sel m"
    and run: "enqueue_wait ts sc sel ack pl k t m = (r, m')"
  shows "R m m'"
proof (cases "mcp_resolve sel m")
  case (Inl e)
  with run R_refl show ?thesis by (simp add: enqueue_wait_def)
next
  case (Inr snap)
  let ?n = "gap sc (snd (next_corr (gap sc m)))"
  have s: "R m ?n" by (intro gap_then [OF ok] after_gap_ops [OF ok] R_refl)
  moreover have "R ?n m'"
    using run Inr send_and_wait_for_R [OF ok R_inv [OF s assms(2)] aimsD [OF aim Inr]]
    by (auto simp: enqueue_wait_def next_corr_def Let_def split: prod.splits sum.splits)
  ultimately show ?thesis by (rule R_trans)
qed

lemma inject_R:
  assumes ok: "others_in R sc" and "inv m" and "aims may sel m"
    and run: "inject ts sc sel w mode ms pl m = (r, m')"
  shows "R m m'"
proof (cases "w \<and> (\<exists>kind. inject_wait_kind mode = Inr kind)")
  case False
  with run R_refl enqueue_R [OF assms(1-3)] show ?thesis by (auto simp: inject_def split: sum.splits if_splits)
next
  case True
  then obtain kind where kind: "w" "inject_wait_kind mode = Inr kind" by blast
  obtain r1 m1 where ew: "enqueue_wait ts sc sel True pl kind
      (case ms of Some x \<Rightarrow> unat x | None \<Rightarrow> REPLY_TIMEOUT) m = (r1, m1)" by fastforce
  have "m' = m1 \<or> m' = gap sc m1"
    using run kind ew by (auto simp: inject_def Let_def split: sum.splits)
  with enqueue_wait_R [OF assms(1-3) ew] show ?thesis by (auto intro: gap_then [OF ok])
qed

lemma inject_variants_R:
  assumes "others_in R sc" and "inv m" and "aims may sel m"
  shows "inject_touch_json ts sc sel kd x y w mode sp ms m = (r, m') \<Longrightarrow> R m m'"
    and "inject_key_json ts sc sel name h w mode ms m = (r, m') \<Longrightarrow> R m m'"
    and "inject_home_json ts sc sel h w mode ms m = (r, m') \<Longrightarrow> R m m'"
    and "inject_swipe_json ts sc sel x1 y1 x2 y2 d w mode sp ms m = (r, m') \<Longrightarrow> R m m'"
  using R_refl inject_R [OF assms]
  by (auto simp: inject_touch_json_def inject_key_json_def inject_home_json_def inject_swipe_json_def
      split: sum.splits)

lemma batch_step_R:
  assumes "others_in R sc" and "inv m" and "may i" and "batch_step ts sc i w mode sp ms st m = (r, m')"
  shows "R m m'"
  using assms(4) R_refl inject_variants_R [OF assms(1,2) may_named [OF assms(2,3)]]
  by (auto simp: batch_step_def Let_def split: if_splits)

lemma batch_loop_R:
  assumes ok: "others_in R sc" and "may i" and "inv m"
  shows "R m (snd (batch_loop (batch_step ts sc i w mode sp ms) (gap sc) i n res sts m))"
  using assms(3)
proof (induction sts arbitrary: n res m)
  case (Cons st sts)
  obtain r m1 where st: "batch_step ts sc i w mode sp ms st (gap sc m) = (r, m1)" by fastforce
  have g: "R m (gap sc m)" by (rule others_inD(1) [OF ok])
  have "R m m1"
    by (rule R_trans [OF g batch_step_R [OF ok R_inv [OF g Cons.prems] assms(2) st]])
  with Cons.IH [OF R_inv [OF this Cons.prems]] st show ?case by (cases r) (auto intro: R_trans)
qed (simp add: R_refl)

lemma inject_batch_R:
  assumes ok: "others_in R sc" and "inv m" and aim: "aims may sel m"
    and run: "inject_batch_json ts sc sel w mode sp ms sts m = (r, m')"
  shows "R m m'"
proof (cases "mcp_resolve sel m")
  case (Inl e)
  with run R_refl show ?thesis by (simp add: inject_batch_json_def)
next
  case (Inr snap)
  let ?i = "reg_instance_id (snap_register snap)"
  have "m' = snd (batch_loop (batch_step ts sc ?i w mode sp ms) (gap sc) ?i 0 [] sts m)"
    using run Inr by (auto simp: inject_batch_json_def Let_def split: prod.splits)
  then show ?thesis using batch_loop_R [OF ok aimsD [OF aim Inr] assms(2)] by simp
qed

lemma set_session_view_R:
  assumes ok: "others_in R sc" and "inv m" and aim: "aims may sel m"
    and run: "set_session_view_json ts sc sel ps ex m = (r, m')"
  shows "R m m'"
proof (cases "mcp_resolve sel m")
  case (Inl e)
  with run R_refl show ?thesis by (simp add: set_session_view_json_def)
next
  case (Inr snap)
  let ?i = "reg_instance_id (snap_register snap)"
  let ?pl = "SetSessionView \<lparr>view_read_mask = wire_session_view_paths ps, view_exclude_log_components = ex\<rparr>"
  note i = aimsD [OF aim Inr]
  obtain q m1 where e: "enqueue ts sc (Some ?i) False ?pl (gap sc m) = (q, m1)" by fastforce
  have g: "R m (gap sc m)" by (rule others_inD(1) [OF ok])
  note gi = R_inv [OF g assms(2)]
  have s1: "R m m1" by (rule R_trans [OF g enqueue_R [OF ok gi may_named [OF gi i] e]])
  have "R m (set_exclude_log_components ?i ex (gap sc (set_read_mask ?i ps (gap sc m1))))"
    by (intro after_gap_ops [OF ok] assms(2) i s1)
  with s1 run Inr e show ?thesis
    by (cases q) (auto simp: set_session_view_json_def Let_def)
qed

lemma request_snapshot_R:
  assumes "others_in R sc" and "inv m" and "aims may sel m"
    and run: "request_snapshot_result ts sc txt b64 sel req w m = (r, m')"
  shows "R m m'"
  using run enqueue_R [OF assms(1-3)] enqueue_wait_R [OF assms(1-3)]
  by (auto simp: request_snapshot_result_def Let_def split: if_splits prod.splits sum.splits)

text \<open>The calls that poll.\<close>

lemma drain_loop_R:
  assumes "drain_loop env enc i msk events r = Some y" and "env_in R env" and "may i" and "inv (run_map r)"
  shows "R (run_map r) (run_map (snd y))"
  using assms
proof (induction env enc i msk events r y rule: drain_loop.raw_induct [rotated, consumes 1])
  case (1 dl env enc i msk events r y)
  let ?m = "env (run_step r) (run_map r)"
  have s: "R (run_map r) ?m" by (rule env_inD [OF 1(3)])
  have here: "R (run_map r) (snd (try_recv_inbound i ?m))"
    by (rule R_trans [OF s R_recv [OF R_inv [OF s 1(5)] 1(4)]])
  show ?case
  proof (cases "fst (try_recv_inbound i ?m)")
    case None
    with 1(2) here show ?thesis by (auto simp: locked_eq)
  next
    case (Some msg)
    with 1(2) have "dl env enc i msk (if inbound_visible msk msg then events @ [event_of enc msg] else events)
        \<lparr>run_map = snd (try_recv_inbound i ?m), run_step = Suc (run_step r)\<rparr> = Some y"
      by (simp add: locked_eq)
    from "1.IH" [OF this 1(3,4)] R_inv [OF here 1(5)] here show ?thesis by (auto intro: R_trans)
  qed
qed

lemma drain_observe_R:
  assumes "drain_observe env enc sel r = Some (res, r')" and ok: "env_in R env" and "inv (run_map r)"
    and aim: "aims may sel (env (run_step r) (run_map r))"
  shows "R (run_map r) (run_map r')"
    and "res = Inr (i, events) \<Longrightarrow> may i"
proof -
  let ?m = "env (run_step r) (run_map r)"
  have s1: "R (run_map r) ?m" by (rule env_inD [OF ok])
  have "R (run_map r) (run_map r') \<and> (res = Inr (i, events) \<longrightarrow> may i)"
  proof (cases "mcp_resolve sel ?m")
    case (Inl e)
    with assms(1) s1 show ?thesis by (auto simp: drain_observe_def locked_eq)
  next
    case (Inr snap)
    let ?i = "reg_instance_id (snap_register snap)"
    let ?r2 = "\<lparr>run_map = env (Suc (run_step r)) ?m, run_step = Suc (Suc (run_step r))\<rparr>"
    note may = aimsD [OF aim Inr]
    obtain msk evs where d: "drain_loop env enc ?i msk [] ?r2 = Some (evs, r')" and res: "res = Inr (?i, evs)"
      using assms(1) Inr by (auto simp: drain_observe_def locked_eq bind_eq_Some_conv Let_def)
    have s2: "R (run_map r) (run_map ?r2)" using env_then [OF ok s1] by simp
    from R_trans [OF s2 drain_loop_R [OF d ok may R_inv [OF s2 assms(3)]]] res may
    show ?thesis by auto
  qed
  then show "R (run_map r) (run_map r')" and "res = Inr (i, events) \<Longrightarrow> may i" by blast+
qed

lemma observe_loop_R:
  assumes "observe_loop env clk enc ul gf ua up waiting deadline i j events r = Some y"
    and "env_in R env" and "may i" and "inv (run_map r)"
  shows "R (run_map r) (run_map (snd y))"
  using assms
proof (induction env clk enc ul gf ua up waiting deadline i j events r y
    rule: observe_loop.raw_induct [rotated, consumes 1])
  case (1 loop env clk enc ul gf ua up waiting deadline i j events r y)
  let ?r1 = "pass_run env r"
  let ?stop = "waiting \<and> (pass_match ul gf ua up events i (run_map ?r1) \<or> deadline \<le> clk j) \<or>
    \<not> waiting \<and> deadline \<le> clk j"
  have s1: "R (run_map r) (run_map ?r1)" using env_inD [OF 1(3)] by (simp add: pass_run_def)
  have body: "(if ?stop
      then (case observe_result env i events waiting (pass_match ul gf ua up events i (run_map ?r1))
              (waiting \<and> \<not> pass_match ul gf ua up events i (run_map ?r1)) ?r1 of
              (body, r2) \<Rightarrow> Some (Inr body, r2))
      else Option.bind (drain_observe env enc (Some i) ?r1)
             (\<lambda>(res, r2). case res of Inl e \<Rightarrow> Some (Inl e, r2)
                | Inr (i', newer) \<Rightarrow> loop env clk enc ul gf ua up waiting deadline i (Suc j) (events @ newer) r2))
      = Some y"
    using 1(2) by (simp only: locked_eq peek_sel pass_run_def pass_match_def Let_def prod.case run.simps)
  show ?case
  proof (cases ?stop)
    case True
    then have "run_map (snd y) = env (run_step ?r1) (run_map ?r1)"
      using body by (auto simp: observe_result_run dest!: sndI split: prod.splits)
    with env_then [OF 1(3) s1] show ?thesis by simp
  next
    case False
    with body obtain res r2 where d: "drain_observe env enc (Some i) ?r1 = Some (res, r2)"
      and k: "(case res of Inl e \<Rightarrow> Some (Inl e, r2)
        | Inr (i', newer) \<Rightarrow> loop env clk enc ul gf ua up waiting deadline i (Suc j) (events @ newer) r2) = Some y"
      by (cases "drain_observe env enc (Some i) ?r1") auto
    note inv1 = R_inv [OF s1 1(5)]
    have s2: "R (run_map r) (run_map r2)"
      by (rule R_trans [OF s1 drain_observe_R(1) [OF d 1(3) inv1
            may_named [OF R_inv [OF env_inD [OF 1(3)] inv1] 1(4)]]])
    show ?thesis
    proof (cases res)
      case (Inl e)
      with k s2 show ?thesis by auto
    next
      case (Inr found)
      with k obtain newer where
        "loop env clk enc ul gf ua up waiting deadline i (Suc j) (events @ newer) r2 = Some y" by (cases found) auto
      from "1.IH" [OF this 1(3,4) R_inv [OF s2 1(5)]] s2 show ?thesis by (auto intro: R_trans)
    qed
  qed
qed

lemma observe_wait_R:
  assumes run: "observe_wait_json env clk enc dflt sel spec r = Some (res, r')" and ok: "env_in R env"
    and "inv (run_map r)" and aim: "aims may sel (env (run_step r) (run_map r))"
  shows "R (run_map r) (run_map r')"
proof -
  obtain res1 r1 where d: "drain_observe env enc sel r = Some (res1, r1)"
    using run by (auto simp: observe_wait_json_def split: option.splits)
  note s1 = drain_observe_R(1) [OF d ok assms(3) aim]
  show ?thesis
  proof (cases res1)
    case (Inl e)
    with run d s1 show ?thesis by (simp add: observe_wait_json_def)
  next
    case (Inr found)
    obtain i events where found: "found = (i, events)" by fastforce
    let ?r2 = "pass_run env r1"
    have may: "may i" by (rule drain_observe_R(2) [OF d ok assms(3) aim]) (simp add: Inr found)
    have s2: "R (run_map r) (run_map ?r2)" using env_then [OF ok s1] by (simp add: pass_run_def)
    from run d Inr found obtain gf r2 where r2: "r2 = r1 \<or> r2 = ?r2"
      and loop: "observe_loop env clk enc (non_empty (sp_until_log spec)) gf (non_empty (sp_until_activity spec))
        (sp_until_progress_page spec) (is_waiting spec) (clk 0 + timeout_ms dflt spec) i 1 events r2 = Some (res, r')"
      by (auto simp: observe_wait_json_def locked_eq pass_run_def Let_def split: if_splits)
    have "R (run_map r) (run_map r2)" using r2 s1 s2 by auto
    from R_trans [OF this observe_loop_R [OF loop ok may R_inv [OF this assms(3)]]] show ?thesis by simp
  qed
qed

lemma register_loop_R:
  assumes "register_loop ops rj hj env senv clk deadline i pid sb as j r s = Some y" and "env_in R env"
  shows "R (run_map r) (run_map (fst (snd y)))"
  using assms
proof (induction ops rj hj env senv clk deadline i pid sb as j r s y
    rule: register_loop.raw_induct [rotated, consumes 1])
  case (1 loop ops rj hj env senv clk deadline i pid sb as j r s y)
  let ?m = "env (run_step r) (run_map r)"
  have s1: "R (run_map r) ?m" by (rule env_inD [OF 1(3)])
  show ?case
  proof (cases "inst_get i ?m")
    case (Some snap)
    with 1(2) s1 show ?thesis by (auto simp: locked_eq)
  next
    case None
    obtain alive s2 where ca: "child_alive ops i (senv j s) = (alive, s2)" by fastforce
    show ?thesis
    proof (cases "\<not> alive \<or> deadline \<le> clk j")
      case True
      with 1(2) None ca s1 show ?thesis by (auto simp: locked_eq split: if_splits)
    next
      case False
      with 1(2) None ca have "loop ops rj hj env senv clk deadline i pid sb as (Suc j)
          \<lparr>run_map = ?m, run_step = Suc (run_step r)\<rparr> s2 = Some y"
        by (simp add: locked_eq)
      from "1.IH" [OF this 1(3)] s1 show ?thesis by (auto intro: R_trans)
    qed
  qed
qed

lemma start_instance_R:
  assumes run: "start_instance_json ops cfg rj hj env senv clk i hd' cwd sb as r s = Some (res, r', s')"
    and ok: "env_in R env"
  shows "R (run_map r) (run_map r')"
proof (cases "is_valid_instance_id i")
  case False
  with run R_refl show ?thesis by (auto simp: start_instance_json_def)
next
  case True
  let ?r1 = "\<lparr>run_map = env (run_step r) (run_map r), run_step = Suc (run_step r)\<rparr>"
  have s1: "R (run_map r) (run_map ?r1)" using env_inD [OF ok] by simp
  obtain started s1' where st: "start ops cfg (senv 0) i hd' cwd (inst_get i (run_map ?r1) \<noteq> None) sb as s =
      (started, s1')" by fastforce
  show ?thesis
  proof (cases started)
    case (Inl e)
    with run True st s1 show ?thesis by (auto simp: start_instance_json_def locked_eq)
  next
    case (Inr pid)
    obtain y where y: "register_loop ops rj hj env senv clk (clk 0 + cfg_wait cfg) i pid sb as 1 ?r1 s1' = Some y"
        "r' = fst (snd y)"
      using run True st Inr by (auto simp: start_instance_json_def locked_eq)
    from R_trans [OF s1 register_loop_R [OF y(1) ok]] y(2) show ?thesis by simp
  qed
qed

end

subsection \<open>Steps of the process\<close>

abbreviation steps where
  "steps ts mk rv \<equiv> (map_step ts mk rv)\<^sup>*\<^sup>*"

lemma tool_op_step: "tool_op ts m m' \<Longrightarrow> steps ts mk rv m m'"
  using ss_tool [of ts "\<lparr>sys_map = m, sys_running = {}\<rparr>" m' mk rv]
  by (intro r_into_rtranclp) (force simp: map_step_def)

lemmas tool_steps = tool_op.intros [THEN tool_op_step]

interpretation st: call_frame ts "steps ts mk rv" "\<lambda>_. True" "\<lambda>_. True" for ts mk rv
  by unfold_locales (auto simp: aims_def intro: tool_steps)

subsection \<open>Leaving an instance alone\<close>

text \<open>The entry of \<open>j\<close> and what is in its outbound channel are the same.\<close>

definition untouched :: "string \<Rightarrow> 'ch imap \<Rightarrow> 'ch imap \<Rightarrow> bool" where
  "untouched j m m' \<longleftrightarrow>
     hm_get (im_inner m') j = hm_get (im_inner m) j \<and> default_instance m' = default_instance m \<and>
     (\<forall>inst. hm_get (im_inner m) j = Some inst \<longrightarrow>
        im_outq m' (inst_outbound_tx inst) = im_outq m (inst_outbound_tx inst))"

definition spares :: "string \<Rightarrow> 'ch imap \<Rightarrow> 'ch imap \<Rightarrow> bool" where
  "spares j m m' \<longleftrightarrow> (map_ok m \<longrightarrow> map_ok m') \<and> untouched j m m'"

lemma untouched_trans: "untouched j m n \<Longrightarrow> untouched j n p \<Longrightarrow> untouched j m p"
  by (auto simp: untouched_def)

lemma tool_op_map_ok: "tool_op ts m m' \<Longrightarrow> map_ok m \<Longrightarrow> map_ok m'"
  by (rule map_steps_ok [OF tool_op_step])

lemma spares_op: "tool_op ts m m' \<Longrightarrow> untouched j m m' \<Longrightarrow> spares j m m'"
  by (simp add: spares_def tool_op_map_ok)

lemma untouched_try_send:
  assumes "map_ok m" and "i \<noteq> j"
  shows "untouched j m (snd (try_send ts i msg m))"
proof -
  have neq: "inst_outbound_tx a \<noteq> inst_outbound_tx b" if "hm_get (im_inner m) i = Some a" "hm_get (im_inner m) j = Some b" for a b
    using assms that imap_wfD by (auto simp: map_ok_def imap_wf_def)
  show ?thesis
    by (auto simp: untouched_def default_instance_def try_send_def split: option.split) (metis neq)
qed

lemma named_resolves:
  assumes "map_ok m" and "mcp_resolve sel m = Inr snap"
  shows "(case sel of Some i \<Rightarrow> Some i | None \<Rightarrow> default_instance m) = Some (reg_instance_id (snap_register snap))"
proof -
  obtain i where i: "(case sel of Some i \<Rightarrow> Some i | None \<Rightarrow> default_instance m) = Some i" "inst_get i m = Some snap"
    using assms(2) by (auto simp: mcp_resolve_def resolve_or_default_def resolve_def
        split: option.splits sum.splits resolve_error.splits if_splits)
  then obtain inst where "hm_get (im_inner m) i = Some inst" "snap = snapshot_of inst"
    by (auto simp: inst_get_def)
  with i(1) assms(1) show ?thesis
    using imap_wfD(3) [of m i inst] by (auto simp: map_ok_def entry_wf_def snapshot_of_def)
qed

interpretation un: call_frame ts "spares j" map_ok "\<lambda>i. i \<noteq> j" for ts j
proof
  show "spares j m m" for m by (simp add: spares_def untouched_def)
  show "spares j x y \<Longrightarrow> spares j y z \<Longrightarrow> spares j x z" for x y z
    by (auto simp: spares_def intro: untouched_trans)
  show "spares j x y \<Longrightarrow> map_ok x \<Longrightarrow> map_ok y" for x y by (simp add: spares_def)
  show "spares j m (snd (next_corr m))" for m
    by (rule spares_op [OF to_next_corr]) (simp add: untouched_def default_instance_def next_corr_def)
  show "spares j m (snd (register_waiter i c k m))" for i c k m
    by (rule spares_op [OF to_register]) (simp add: untouched_def default_instance_def register_waiter_def Let_def)
  show "spares j m (take_waiter c m)" for c m
    by (rule spares_op [OF to_take]) (simp add: untouched_def default_instance_def take_waiter_def)
  show "map_ok m \<Longrightarrow> i \<noteq> j \<Longrightarrow> spares j m (snd (try_send ts i msg m))" for i msg m
    by (rule spares_op [OF to_try_send]) (rule untouched_try_send)
  show "i \<noteq> j \<Longrightarrow> spares j m (set_read_mask i paths m)" for i paths m
    by (rule spares_op [OF to_read_mask])
      (auto simp: untouched_def default_instance_def set_read_mask_def split: option.split)
  show "i \<noteq> j \<Longrightarrow> spares j m (set_exclude_log_components i comps m)" for i comps m
    by (rule spares_op [OF to_exclude])
      (auto simp: untouched_def default_instance_def set_exclude_log_components_def split: option.split)
  show "i \<noteq> j \<Longrightarrow> spares j m (snd (try_recv_inbound i m))" for i m
    by (rule spares_op [OF to_recv])
      (auto simp: untouched_def default_instance_def try_recv_inbound_def split: option.split prod.split)
  show "map_ok m \<Longrightarrow> i \<noteq> j \<Longrightarrow> aims (\<lambda>i. i \<noteq> j) (Some i) m" for i m
    using named_resolves [of m "Some i"] by (auto simp: aims_def)
qed

end
