(* ===== verification/Proxy.thy ===== *)
theory Proxy
  imports Call_Frame
begin

text \<open>
  The process around the tools: its command line (\<open>crates/csm-proxy/src/cli.rs\<close>), its log filter
  (\<open>logging.rs\<close>), the machine-readable capabilities, and the tool dispatch of the MCP server
  (\<open>mcp.rs\<close>), where each of the thirteen tools becomes one call on the state of the process:
  the instance map and the supervisor.
\<close>

subsection \<open>Command line and log filter\<close>

record args =
  arg_listen :: string
  arg_mcp_http :: "string option"
  arg_default_instance :: "string option"
  arg_simulator :: "string option"
  arg_simulator_arg :: "string list"
  arg_auto_sleep :: bool
  arg_observe_wait_ms :: nat

definition parse_instance_id :: "string \<Rightarrow> string + string" where
  "parse_instance_id s = (if is_valid_instance_id s then Inr s else Inl ''must be 1-64 bytes'')"

definition apply_instance_hints :: "args \<Rightarrow> 'ch imap \<Rightarrow> 'ch imap" where
  "apply_instance_hints a m = set_default_instance (arg_default_instance a) m"

definition from_args :: "args \<Rightarrow> spawn_config" where
  "from_args a =
     \<lparr>cfg_binary = arg_simulator a, cfg_extra_args = arg_simulator_arg a, cfg_listen = arg_listen a,
      cfg_wait = SPAWN_WAIT, cfg_auto_sleep_default = arg_auto_sleep a,
      cfg_observe_wait_ms = arg_observe_wait_ms a\<rparr>"

definition DEFAULT_FILTER :: string where
  "DEFAULT_FILTER = ''csm_proxy=info''"

definition filter_from_env :: "string option \<Rightarrow> string" where
  "filter_from_env rust_log =
     (case rust_log of
        Some spec \<Rightarrow> if spec \<noteq> [] then spec else DEFAULT_FILTER
      | None \<Rightarrow> DEFAULT_FILTER)"

text \<open>The subscriber is process-wide and set once: \<open>try_init\<close> fails when there is one, and the code
  ignores the failure.\<close>

definition init_tracing :: "string option \<Rightarrow> string option \<Rightarrow> string option" where
  "init_tracing rust_log subscriber =
     (case subscriber of Some old \<Rightarrow> Some old | None \<Rightarrow> Some (filter_from_env rust_log))"

subsection \<open>Capabilities\<close>

definition TOOL_NAMES :: "string list" where
  "TOOL_NAMES =
     [''list_instances'', ''get_instance'', ''start_instance'', ''inject_touch'', ''inject_key'',
      ''inject_home'', ''inject_swipe'', ''inject_batch'', ''set_inject_enabled'',
      ''request_snapshot'', ''set_session_view'', ''shutdown_instance'', ''observe'']"

definition jstrs :: "string list \<Rightarrow> json" where
  "jstrs xs = JArr (map JStr xs)"

definition capabilities_json :: "bool \<Rightarrow> json" where
  "capabilities_json spawn_configured = JObj [
     (''tools'', jstrs TOOL_NAMES),
     (''resources'', jstrs [CAPABILITIES_URI, INSTANCES_URI, ''csm://instances/{id}'']),
     (''instanceId'', JObj [
        (''required'', JBool True), (''minBytes'', JNum 1), (''maxBytes'', JNum 64),
        (''omitWhenOne'', JBool False), (''startInstanceRequiresExplicitId'', JBool True)]),
     (''keys'', jstrs [''BACK'', ''ENTER'', ''LEFT'', ''RIGHT'', ''UP'', ''DOWN'', ''POWER'', ''SLEEP'', ''QUIT'']),
     (''snapshot'', JObj [(''mimeType'', JStr ''image/png''), (''format'', JNum 0)]),
     (''spawn'', JObj [
        (''configured'', JBool spawn_configured), (''tool'', JStr ''start_instance''),
        (''headlessDefault'', JBool True), (''sampleBookDefault'', JBool True),
        (''sampleBook'', JObj [
           (''param'', JStr ''sample_book''), (''filename'', JStr ''CrossPoint-Reader.epub''),
           (''sdPath'', JStr ''/books/CrossPoint-Reader.epub''),
           (''source'', JStr ''https://github.com/canardleteer/crosspoint-reader/blob/develop/README.md'')]),
        (''autoSleepDefault'', JBool False),
        (''autoSleep'', JObj [
           (''param'', JStr ''auto_sleep''), (''neverMinutes'', JNum (int NEVER_SLEEP_TIMEOUT_MINUTES)),
           (''firmwareDefaultMinutes'', JNum 10), (''settingsPath'', JStr SETTINGS_RELATIVE)]),
        (''clientPassesBinary'', JBool False), (''firmwareBuild'', JBool False)]),
     (''observe'', JObj [
        (''waitMsParam'', JStr ''wait_ms''), (''waitMsDefault'', JNum (int DEFAULT_OBSERVE_WAIT_MS)),
        (''untilLogParam'', JStr ''until_log''), (''untilActivityParam'', JStr ''until_activity''),
        (''untilProgressPageParam'', JStr ''until_progress_page''),
        (''untilGenerationGtParam'', JStr ''until_generation_gt''),
        (''untilGenerationGtZeroMeansCurrent'', JBool True),
        (''matchedOnlyWithUntil'', JBool True), (''heartbeatAlwaysOnWire'', JBool True)]),
     (''inject'', JObj [
        (''waitModeDefault'', JStr ''paint''), (''waitModes'', jstrs [''ack'', ''paint'']),
        (''coordinateSpaceDefault'', JStr ''logical''),
        (''coordinateSpaces'', jstrs [''panel'', ''logical'']), (''batchTool'', JStr ''inject_batch'')]),
     (''sessionView'', JObj [(''excludeLogComponentsParam'', JStr ''exclude_log_components'')]),
     (''firmware'', JObj [
        (''compileTime'', JBool True), (''see'', JStr ''Register''),
        (''boardIds'', jstrs [''x4'', ''x3'', ''x4_pro'', ''sticky'', ''paper_mono''])])]"

definition jindex :: "string \<Rightarrow> json \<Rightarrow> json" where
  "jindex k j = (case jget k j of Some v \<Rightarrow> v | None \<Rightarrow> JNull)"

definition capabilities_document :: "spawn_config \<Rightarrow> json" where
  "capabilities_document cfg =
     (let caps = capabilities_json (is_configured cfg);
          caps = jset ''spawn'' (jset ''autoSleepDefault'' (JBool (cfg_auto_sleep_default cfg))
                   (jindex ''spawn'' caps)) caps;
          caps = jset ''observe'' (jset ''waitMsDefault'' (JNum (int (cfg_observe_wait_ms cfg)))
                   (jindex ''observe'' caps)) caps
      in caps)"

subsection \<open>Tool parameters\<close>

text \<open>The parameters as the handlers receive them, with the omitted ones at their defaults.\<close>

definition default_wait :: bool where
  "default_wait = True"

definition default_headless :: bool where
  "default_headless = True"

definition default_sample_book :: bool where
  "default_sample_book = True"

record inject_touch_params =
  itp_instance_id :: "string option"
  itp_kind :: u32
  itp_x :: u32
  itp_y :: u32
  itp_wait :: bool
  itp_wait_mode :: "string option"
  itp_space :: "string option"
  itp_wait_ms :: "u32 option"

record inject_key_params =
  ikp_instance_id :: "string option"
  ikp_name :: string
  ikp_hold_ms :: u32
  ikp_wait :: bool
  ikp_wait_mode :: "string option"
  ikp_wait_ms :: "u32 option"

record inject_home_params =
  ihp_instance_id :: "string option"
  ihp_hold_ms :: u32
  ihp_wait :: bool
  ihp_wait_mode :: "string option"
  ihp_wait_ms :: "u32 option"

record inject_swipe_params =
  isp_instance_id :: "string option"
  isp_start_x :: u32
  isp_start_y :: u32
  isp_end_x :: u32
  isp_end_y :: u32
  isp_duration_ms :: u32
  isp_wait :: bool
  isp_wait_mode :: "string option"
  isp_space :: "string option"
  isp_wait_ms :: "u32 option"

record inject_batch_params =
  ibp_instance_id :: "string option"
  ibp_wait :: bool
  ibp_wait_mode :: "string option"
  ibp_space :: "string option"
  ibp_wait_ms :: "u32 option"
  ibp_steps :: "inject_batch_step list"

record snapshot_params =
  snp_instance_id :: "string option"
  snp_request :: snapshot_request
  snp_wait :: bool

record session_view_params =
  svp_instance_id :: "string option"
  svp_paths :: "string list"
  svp_exclude_log_components :: "string list"

record start_instance_params =
  stp_instance_id :: string
  stp_headless :: bool
  stp_cwd :: "string option"
  stp_sample_book :: bool
  stp_auto_sleep :: "bool option"

record observe_params =
  obp_instance_id :: "string option"
  obp_spec :: observe_spec

datatype tool_call =
    ListInstances
  | GetInstance "string option"
  | StartInstance start_instance_params
  | InjectTouchCall inject_touch_params
  | InjectKeyCall inject_key_params
  | InjectHomeCall inject_home_params
  | InjectSwipeCall inject_swipe_params
  | InjectBatchCall inject_batch_params
  | SetInjectEnabledCall "string option" bool
  | RequestSnapshot snapshot_params
  | SetSessionViewCall session_view_params
  | ShutdownInstance "string option"
  | Observe observe_params

subsection \<open>Dispatch\<close>

text \<open>What the process runs on: the channel, the schedule of the other tasks, the clock, the OS and
  the generated and third-party encoders, all parameters.\<close>

record ('ch, 'os) services =
  svc_try_send :: "'ch try_send_fn"
  svc_sched :: "'ch sched"
  svc_env :: "'ch env"
  svc_spawn_env :: "nat \<Rightarrow> 'os spawner \<Rightarrow> 'os spawner"
  svc_clock :: "nat \<Rightarrow> nat"
  svc_os :: "'os os_ops"
  svc_config :: spawn_config
  svc_message_json :: "sim_to_server \<Rightarrow> json option"
  svc_register_json :: "register \<Rightarrow> json"
  svc_heartbeat_json :: "heartbeat \<Rightarrow> json"
  svc_json_text :: "json \<Rightarrow> string"
  svc_base64 :: "string \<Rightarrow> string"

definition on_map ::
    "(json \<Rightarrow> string) \<Rightarrow> 'os spawner \<Rightarrow> (string + json) \<times> 'ch imap \<Rightarrow>
     (call_tool_result \<times> 'ch imap \<times> 'os spawner) option" where
  "on_map txt s out = (case out of (res, m) \<Rightarrow> Some (tool_result txt res, m, s))"

definition call_tool ::
    "('ch, 'os) services \<Rightarrow> tool_call \<Rightarrow> 'ch imap \<Rightarrow> 'os spawner \<Rightarrow>
     (call_tool_result \<times> 'ch imap \<times> 'os spawner) option" where
  "call_tool v call m s =
     (let ts = svc_try_send v; sc = svc_sched v; txt = svc_json_text v;
          rj = svc_register_json v; hj = svc_heartbeat_json v
      in case call of
        ListInstances \<Rightarrow> on_map txt s (Inr (list_instances_json rj hj m), m)
      | GetInstance sel \<Rightarrow> on_map txt s (get_instance_json rj hj sel m, m)
      | StartInstance p \<Rightarrow>
          (let auto_sleep = (case stp_auto_sleep p of
                               Some b \<Rightarrow> b | None \<Rightarrow> cfg_auto_sleep_default (svc_config v))
           in map_option (\<lambda>(res, r, s'). (tool_result txt res, run_map r, s'))
                (start_instance_json (svc_os v) (svc_config v) rj hj (svc_env v) (svc_spawn_env v)
                   (svc_clock v) (stp_instance_id p) (stp_headless p) (stp_cwd p) (stp_sample_book p)
                   auto_sleep \<lparr>run_map = m, run_step = 0\<rparr> s))
      | InjectTouchCall p \<Rightarrow>
          on_map txt s (inject_touch_json ts sc (itp_instance_id p) (itp_kind p) (itp_x p) (itp_y p)
            (itp_wait p) (itp_wait_mode p) (itp_space p) (itp_wait_ms p) m)
      | InjectKeyCall p \<Rightarrow>
          on_map txt s (inject_key_json ts sc (ikp_instance_id p) (ikp_name p) (ikp_hold_ms p)
            (ikp_wait p) (ikp_wait_mode p) (ikp_wait_ms p) m)
      | InjectHomeCall p \<Rightarrow>
          on_map txt s (inject_home_json ts sc (ihp_instance_id p) (ihp_hold_ms p)
            (ihp_wait p) (ihp_wait_mode p) (ihp_wait_ms p) m)
      | InjectSwipeCall p \<Rightarrow>
          on_map txt s (inject_swipe_json ts sc (isp_instance_id p) (isp_start_x p) (isp_start_y p)
            (isp_end_x p) (isp_end_y p) (isp_duration_ms p) (isp_wait p) (isp_wait_mode p)
            (isp_space p) (isp_wait_ms p) m)
      | InjectBatchCall p \<Rightarrow>
          on_map txt s (inject_batch_json ts sc (ibp_instance_id p) (ibp_wait p) (ibp_wait_mode p)
            (ibp_space p) (ibp_wait_ms p) (ibp_steps p) m)
      | SetInjectEnabledCall sel enabled \<Rightarrow> on_map txt s (set_inject_enabled_json ts sc sel enabled m)
      | RequestSnapshot p \<Rightarrow>
          (case request_snapshot_result ts sc txt (svc_base64 v) (snp_instance_id p) (snp_request p)
                  (snp_wait p) m of
             (res, m') \<Rightarrow> Some (res, m', s))
      | SetSessionViewCall p \<Rightarrow>
          on_map txt s (set_session_view_json ts sc (svp_instance_id p) (svp_paths p)
            (svp_exclude_log_components p) m)
      | ShutdownInstance sel \<Rightarrow>
          (case shutdown_instance_json ts sc sel m of
             (queued, m') \<Rightarrow>
               Some (tool_result txt queued, m', reap_if_spawned (svc_os v) sel m' s))
      | Observe p \<Rightarrow>
          map_option (\<lambda>(res, r). (tool_result txt res, run_map r, s))
            (observe_wait_json (svc_env v) (svc_clock v) (svc_message_json v)
               (cfg_observe_wait_ms (svc_config v)) (obp_instance_id p) (obp_spec p)
               \<lparr>run_map = m, run_step = 0\<rparr>))"

subsection \<open>Tool calls are steps of the process\<close>

definition sched_steps ::
    "'ch try_send_fn \<Rightarrow> (nat \<Rightarrow> 'ch) \<Rightarrow> ('ch \<Rightarrow> (server_to_sim \<times> 'ch) option) \<Rightarrow> 'ch sched \<Rightarrow> bool" where
  "sched_steps ts mk rv sc \<longleftrightarrow>
     (\<forall>m. (map_step ts mk rv)\<^sup>*\<^sup>* m (gap sc m)) \<and>
     (\<forall>rx t m. (map_step ts mk rv)\<^sup>*\<^sup>* m (snd (await_rx sc rx t m)))"

lemma sched_steps_in: "sched_steps ts mk rv sc \<longleftrightarrow> others_in (steps ts mk rv) sc"
  by (simp add: sched_steps_def others_in_def)

lemma env_ok_in: "env_ok ts mk rv env \<longleftrightarrow> env_in (steps ts mk rv) env"
  by (simp add: env_ok_def env_in_def)

text \<open>The instance a call is for; \<open>None\<close> for the calls that are not for one.\<close>

definition target :: "tool_call \<Rightarrow> string option option" where
  "target call =
     (case call of
        ListInstances \<Rightarrow> None
      | StartInstance _ \<Rightarrow> None
      | GetInstance sel \<Rightarrow> Some sel
      | InjectTouchCall p \<Rightarrow> Some (itp_instance_id p)
      | InjectKeyCall p \<Rightarrow> Some (ikp_instance_id p)
      | InjectHomeCall p \<Rightarrow> Some (ihp_instance_id p)
      | InjectSwipeCall p \<Rightarrow> Some (isp_instance_id p)
      | InjectBatchCall p \<Rightarrow> Some (ibp_instance_id p)
      | SetInjectEnabledCall sel _ \<Rightarrow> Some sel
      | RequestSnapshot p \<Rightarrow> Some (snp_instance_id p)
      | SetSessionViewCall p \<Rightarrow> Some (svp_instance_id p)
      | ShutdownInstance sel \<Rightarrow> Some sel
      | Observe p \<Rightarrow> Some (obp_instance_id p))"

context call_frame
begin

text \<open>A whole call stays in the relation, when its target stays among the ids that may be touched.\<close>

lemma call_tool_R:
  assumes run: "call_tool v call m s = Some (res, m', s')"
    and ts: "svc_try_send v = ts" and sc: "others_in R (svc_sched v)" and env: "env_in R (svc_env v)"
    and inv: "inv m" and aim: "\<And>sel n. target call = Some sel \<Longrightarrow> R m n \<Longrightarrow> aims may sel n"
  shows "R m m'"
proof (cases call)
  case (StartInstance p)
  with run start_instance_R [OF _ env] show ?thesis
    by (fastforce simp: call_tool_def Let_def)
next
  case (Observe p)
  with run obtain out r where "m' = run_map r"
    and "observe_wait_json (svc_env v) (svc_clock v) (svc_message_json v) (cfg_observe_wait_ms (svc_config v))
      (obp_instance_id p) (obp_spec p) \<lparr>run_map = m, run_step = 0\<rparr> = Some (out, r)"
    by (auto simp: call_tool_def Let_def)
  with observe_wait_R [OF this(2) env] inv aim [of "obp_instance_id p"] env_inD [OF env] Observe
  show ?thesis by (simp add: target_def)
next
  case (InjectBatchCall p)
  with run inject_batch_R [OF sc inv aim] R_refl show ?thesis
    by (auto simp: call_tool_def on_map_def Let_def ts target_def split: prod.splits)
next
  case (RequestSnapshot p)
  with run request_snapshot_R [OF sc inv aim] R_refl show ?thesis
    by (auto simp: call_tool_def on_map_def Let_def ts target_def split: prod.splits)
next
  case (SetSessionViewCall p)
  with run set_session_view_R [OF sc inv aim] R_refl show ?thesis
    by (auto simp: call_tool_def on_map_def Let_def ts target_def split: prod.splits)
qed (use run R_refl inject_variants_R [OF sc inv aim] enqueue_R [OF sc inv aim]
  in \<open>auto simp: call_tool_def on_map_def Let_def set_inject_enabled_json_def shutdown_instance_json_def
      ts target_def split: prod.splits sum.splits\<close>)

end

lemma call_tool_steps:
  assumes "call_tool v call m s = Some (res, m', s')"
    and "sched_steps (svc_try_send v) mk rv (svc_sched v)" and "env_ok (svc_try_send v) mk rv (svc_env v)"
  shows "steps (svc_try_send v) mk rv m m'"
  using st.call_tool_R [OF assms(1) refl] assms(2,3) by (simp add: sched_steps_in env_ok_in aims_def)


definition quiet_services :: "(server_to_sim list, string list) services" where
  "quiet_services =
     \<lparr>svc_try_send = list_try_send 128, svc_sched = quiet_sched, svc_env = (\<lambda>_ m. m),
      svc_spawn_env = (\<lambda>_ s. s), svc_clock = poll_times, svc_os = log_os, svc_config = sim_config,
      svc_message_json = text_enc, svc_register_json = (\<lambda>_. JNull), svc_heartbeat_json = (\<lambda>_. JNull),
      svc_json_text = (\<lambda>_. ''{}''), svc_base64 = (\<lambda>s. s)\<rparr>"


subsection \<open>Calls leave the other instances alone\<close>

text \<open>The id a selector stands for.\<close>

definition selected :: "string option \<Rightarrow> 'ch imap \<Rightarrow> string option" where
  "selected sel m = (case sel of Some i \<Rightarrow> Some i | None \<Rightarrow> default_instance m)"

text \<open>C8. A call leaves every instance alone but the one it is for: as long as the other tasks do not
  touch instance \<open>j\<close>, a call of any tool that does not name \<open>j\<close> (or the default, when that is \<open>j\<close>)
  ends with the entry of \<open>j\<close> unchanged (session, register, heartbeat, queue and view), with
  nothing put into or taken from \<open>j\<close>'s outbound channel, and with the same default instance;
  even if instances come, go and are replaced meanwhile.\<close>

theorem calls_leave_others_alone:
  assumes "call_tool v call m s = Some (res, m', s')"
    and "sched_steps (svc_try_send v) mk rv (svc_sched v)" and "env_ok (svc_try_send v) mk rv (svc_env v)"
    and "others_in (untouched j) (svc_sched v)" and "env_in (untouched j) (svc_env v)"
    and "imap_wf m" and "caps_wf m"
    and "\<And>sel. target call = Some sel \<Longrightarrow> selected sel m \<noteq> Some j"
  shows "hm_get (im_inner m') j = hm_get (im_inner m) j \<and> default_instance m' = default_instance m \<and>
    (\<forall>inst. hm_get (im_inner m) j = Some inst \<longrightarrow>
       im_outq m' (inst_outbound_tx inst) = im_outq m (inst_outbound_tx inst))"
proof -
  have ok: "map_ok m" using assms(6,7) by (simp add: map_ok_def)
  have "map_ok (snd (await_rx (svc_sched v) rx t n))" if "map_ok n" for rx t n
    using assms(2) that by (auto simp: sched_steps_def intro!: map_steps_ok [of "svc_try_send v" mk rv n])
  then have "others_in (spares j) (svc_sched v)"
    using assms(2,4) by (auto simp: others_in_def spares_def sched_steps_def intro: map_steps_ok)
  moreover have "env_in (spares j) (svc_env v)"
    using assms(3,5) by (auto simp: env_in_def spares_def env_ok_def intro: map_steps_ok)
  moreover have "aims (\<lambda>i. i \<noteq> j) sel n" if "target call = Some sel" and "spares j m n" for sel n
  proof -
    have "map_ok n" "default_instance n = default_instance m"
      using that(2) ok by (simp_all add: spares_def untouched_def)
    with assms(8) [OF that(1)] named_resolves [of n sel] show ?thesis
      by (auto simp: aims_def selected_def split: option.splits)
  qed
  ultimately have "spares j m m'" by (intro un.call_tool_R [OF assms(1) refl]) (use ok in auto)
  then show ?thesis by (simp add: spares_def untouched_def)
qed

definition two_sessions :: "server_to_sim list imap" where
  "two_sessions = snd (session_open (\<lambda>_. []) (Some (Item (envelope 0 0 (Register (sample_register ''b'')))))
     (sys_map first_session))"

theorem calls_leave_others_alone_witness:
  "\<exists>m' s'. call_tool quiet_services (ShutdownInstance (Some ''b'')) two_sessions (spawner_new []) =
      Some (ToolSuccess [TextBlock ''{}''], m', s') \<and>
    hm_get (im_inner m') ''a'' = hm_get (im_inner two_sessions) ''a'' \<and>
    hm_get (im_inner two_sessions) ''a'' \<noteq> None \<and> length (im_outq m' 1) = 1"
proof -
  let ?r = "call_tool quiet_services (ShutdownInstance (Some ''b'')) two_sessions (spawner_new [])"
  have "map_option (\<lambda>(res, m, s). (res, length (im_outq m 1))) ?r = Some (ToolSuccess [TextBlock ''{}''], 1)"
    by code_simp
  then obtain m' s' where r: "?r = Some (ToolSuccess [TextBlock ''{}''], m', s')" "length (im_outq m' 1) = 1"
    by auto
  have "sched_steps (svc_try_send quiet_services) (\<lambda>_. []) list_recv (svc_sched quiet_services)"
    and "env_ok (svc_try_send quiet_services) (\<lambda>_. []) list_recv (svc_env quiet_services)"
    and "others_in (untouched ''a'') (svc_sched quiet_services)" and "env_in (untouched ''a'') (svc_env quiet_services)"
    by (simp_all add: quiet_services_def sched_steps_def quiet_sched_def env_ok_def others_in_def env_in_def
        untouched_def)
  moreover have "imap_wf two_sessions"
    unfolding two_sessions_def using first_session_map_ok
    by (auto simp: map_ok_def intro: imap_wf_open [OF _ prod.collapse [symmetric]])
  moreover have a: "hm_get (im_inner two_sessions) ''a'' \<noteq> None" and "caps_wf two_sessions"
    by (auto simp: two_sessions_def first_session_def session_open_def is_valid_instance_id_def caps_wf_def
        INSTANCE_ID_MAX_LEN_def mpsc_channel_def imap_insert_def imap_new_def iq_new_def Let_def
        split: if_splits)
  ultimately have "hm_get (im_inner m') ''a'' = hm_get (im_inner two_sessions) ''a''"
    using calls_leave_others_alone [OF r(1), of "\<lambda>_. []" list_recv "''a''"]
    by (simp add: target_def selected_def)
  with r a show ?thesis by blast
qed

subsection \<open>Calls without a target\<close>

lemma inject_unresolved:
  assumes "mcp_resolve sel m = Inl e"
  shows "\<exists>e'. inject ts sc sel w mode ms pl m = (Inl e', m)"
  using assms
  by (cases w; cases "inject_wait_kind mode")
    (auto simp: inject_def enqueue_def enqueue_wait_def)

lemma inject_variants_unresolved:
  assumes "mcp_resolve sel m = Inl e"
  shows "\<exists>e'. inject_touch_json ts sc sel kd x y w mode sp ms m = (Inl e', m)"
    and "\<exists>e'. inject_key_json ts sc sel name h w mode ms m = (Inl e', m)"
    and "\<exists>e'. inject_home_json ts sc sel h w mode ms m = (Inl e', m)"
    and "\<exists>e'. inject_swipe_json ts sc sel x1 y1 x2 y2 d w mode sp ms m = (Inl e', m)"
  using inject_unresolved [OF assms]
  by (auto simp: inject_touch_json_def inject_key_json_def inject_home_json_def inject_swipe_json_def
      split: sum.split)

lemma others_unresolved:
  assumes "mcp_resolve sel m = Inl e"
  shows "get_instance_json rj hj sel m = Inl e"
    and "inject_batch_json ts sc sel w mode sp ms sts m = (Inl e, m)"
    and "set_inject_enabled_json ts sc sel b m = (Inl e, m)"
    and "shutdown_instance_json ts sc sel m = (Inl e, m)"
    and "set_session_view_json ts sc sel ps ex m = (Inl e, m)"
    and "request_snapshot_result ts sc txt b64 sel req w m = (ToolError [TextBlock e], m)"
    and "observe_wait_json (\<lambda>_ m. m) clk enc dflt sel spec \<lparr>run_map = m, run_step = n\<rparr> =
      Some (Inl e, \<lparr>run_map = m, run_step = Suc n\<rparr>)"
  using assms
  by (simp_all add: get_instance_json_def inject_batch_json_def set_inject_enabled_json_def
      shutdown_instance_json_def set_session_view_json_def request_snapshot_result_def enqueue_def
      enqueue_wait_def tool_result_def observe_wait_json_def drain_observe_def locked_eq)

lemma on_map_error:
  "\<exists>e. out = (Inl e, m) \<Longrightarrow> \<exists>text s'. on_map txt s out = Some (ToolError [TextBlock text], m, s')"
  by (auto simp: on_map_def tool_result_def)

text \<open>A call that names no connected instance does nothing: whatever the tool, if its target does
  not resolve, the answer is a tool error and the instance map is unchanged.\<close>

lemma unresolved_calls_change_nothing:
  assumes "target call = Some sel" and "mcp_resolve sel m = Inl e" and "svc_env v = (\<lambda>_ m. m)"
  shows "\<exists>text s'. call_tool v call m s = Some (ToolError [TextBlock text], m, s')"
  using assms inject_variants_unresolved [OF assms(2)]
  by (cases call)
    (simp_all add: target_def call_tool_def Let_def others_unresolved on_map_error tool_result_def)

lemma unresolved_calls_change_nothing_witness:
  "\<exists>text s'. call_tool quiet_services (GetInstance None) lone_instance (spawner_new []) =
     Some (ToolError [TextBlock text], lone_instance, s')"
proof -
  have "mcp_resolve None lone_instance = Inl id_required_text"
    by (simp add: mcp_resolve_def resolve_or_default_def lone_instance_lookups)
  from unresolved_calls_change_nothing [OF _ this, of "GetInstance None" quiet_services]
  show ?thesis by (simp add: target_def quiet_services_def)
qed

subsection \<open>The advertised surface\<close>

text \<open>The name under which the tool router serves each call.\<close>

definition tool_name :: "tool_call \<Rightarrow> string" where
  "tool_name call =
     (case call of
        ListInstances \<Rightarrow> ''list_instances''
      | GetInstance _ \<Rightarrow> ''get_instance''
      | StartInstance _ \<Rightarrow> ''start_instance''
      | InjectTouchCall _ \<Rightarrow> ''inject_touch''
      | InjectKeyCall _ \<Rightarrow> ''inject_key''
      | InjectHomeCall _ \<Rightarrow> ''inject_home''
      | InjectSwipeCall _ \<Rightarrow> ''inject_swipe''
      | InjectBatchCall _ \<Rightarrow> ''inject_batch''
      | SetInjectEnabledCall _ _ \<Rightarrow> ''set_inject_enabled''
      | RequestSnapshot _ \<Rightarrow> ''request_snapshot''
      | SetSessionViewCall _ \<Rightarrow> ''set_session_view''
      | ShutdownInstance _ \<Rightarrow> ''shutdown_instance''
      | Observe _ \<Rightarrow> ''observe'')"

lemma tool_name_listed: "tool_name call \<in> set TOOL_NAMES"
  by (cases call) (simp_all add: tool_name_def TOOL_NAMES_def)

lemma listed_tool_served:
  "TOOL_NAMES = map tool_name [ListInstances, GetInstance undefined, StartInstance undefined,
     InjectTouchCall undefined, InjectKeyCall undefined, InjectHomeCall undefined,
     InjectSwipeCall undefined, InjectBatchCall undefined, SetInjectEnabledCall undefined True,
     RequestSnapshot undefined, SetSessionViewCall undefined, ShutdownInstance undefined,
     Observe undefined]"
  by (simp add: tool_name_def TOOL_NAMES_def)

text \<open>The capabilities document tells the truth about this process: it lists exactly the tools
  that are served, each once, and reports whether spawning is configured and the process's own
  defaults for auto sleep and for the observe wait.\<close>

lemma capabilities_are_truthful:
  "\<exists>names. jget ''tools'' (capabilities_document cfg) = Some (jstrs names) \<and> distinct names \<and>
     set names = range tool_name \<and>
     jget ''configured'' (jindex ''spawn'' (capabilities_document cfg)) = Some (JBool (cfg_binary cfg \<noteq> None)) \<and>
     jget ''autoSleepDefault'' (jindex ''spawn'' (capabilities_document cfg)) =
       Some (JBool (cfg_auto_sleep_default cfg)) \<and>
     jget ''waitMsDefault'' (jindex ''observe'' (capabilities_document cfg)) =
       Some (JNum (int (cfg_observe_wait_ms cfg)))"
proof (intro exI [of _ TOOL_NAMES] conjI)
  show "distinct TOOL_NAMES" by (simp add: TOOL_NAMES_def)
  show "set TOOL_NAMES = range tool_name"
    using tool_name_listed by (auto simp: listed_tool_served)
qed (simp_all add: capabilities_document_def capabilities_json_def Let_def jindex_def update_conv'
      is_configured_def)


end
