(* ===== verification/Answer_Types.thy ===== *)
theory Answer_Types
  imports Proxy
begin

text \<open>
  The types of the answers. A client decides what to read of an answer by the tool it called, so each
  tool promises the members of its JSON value and their types (\<open>README.md\<close> and the tool descriptions
  in \<open>mcp.rs\<close> tell the client). A \<open>shape\<close> is such a type; \<open>has_shape\<close> checks a value against it, the
  members of an object in any order and no others; \<open>reply_shape\<close> is the type of each call's answer.
  The members the generated encoders produce (\<open>register\<close>, \<open>lastHeartbeat\<close>, the events) are \<open>Anything\<close>.
\<close>

datatype shape =
    Anything
  | Exactly json
  | Flag
  | Whole
  | Natural
  | Unsigned nat
  | Text
  | Nullable shape
  | ListOf shape
  | Object "(string \<times> shape) list"
  | OneOf shape shape

function has_shape :: "shape \<Rightarrow> json \<Rightarrow> bool"
  and has_members :: "(string \<times> shape) list \<Rightarrow> (string \<times> json) list \<Rightarrow> bool" where
  "has_shape Anything j = True"
| "has_shape (Exactly v) j = (j = v)"
| "has_shape Flag j = (case j of JBool _ \<Rightarrow> True | _ \<Rightarrow> False)"
| "has_shape Whole j = (case j of JNum _ \<Rightarrow> True | _ \<Rightarrow> False)"
| "has_shape Natural j = (case j of JNum n \<Rightarrow> 0 \<le> n | _ \<Rightarrow> False)"
| "has_shape (Unsigned w) j = (case j of JNum n \<Rightarrow> 0 \<le> n \<and> n < 2 ^ w | _ \<Rightarrow> False)"
| "has_shape Text j = (case j of JStr _ \<Rightarrow> True | _ \<Rightarrow> False)"
| "has_shape (Nullable sh) j = (j = JNull \<or> has_shape sh j)"
| "has_shape (ListOf sh) j = (case j of JArr js \<Rightarrow> list_all (has_shape sh) js | _ \<Rightarrow> False)"
| "has_shape (Object fs) j =
     (case j of
        JObj kvs \<Rightarrow> distinct (map fst kvs) \<and> set (map fst kvs) = set (map fst fs) \<and> has_members fs kvs
      | _ \<Rightarrow> False)"
| "has_shape (OneOf a b) j = (has_shape a j \<or> has_shape b j)"
| "has_members [] kvs = True"
| "has_members ((k, sh) # fs) kvs =
     ((case map_of kvs k of Some v \<Rightarrow> has_shape sh v | None \<Rightarrow> False) \<and> has_members fs kvs)"
  by pat_completeness auto

termination
  by (relation "measure (case_sum (\<lambda>(sh, _). size sh) (\<lambda>(fs, _). size_list (size_prod (\<lambda>_. 0) size) fs))")
    auto

text \<open>Reading a member of a typed object.\<close>

lemma has_members_get:
  "has_members fs kvs \<Longrightarrow> (k, sh) \<in> set fs \<Longrightarrow> \<exists>v. map_of kvs k = Some v \<and> has_shape sh v"
  by (induction fs) (auto split: option.splits)

lemma object_member:
  assumes "has_shape (Object fs) j" and "map_of fs k = Some sh"
  shows "\<exists>v. jget k j = Some v \<and> has_shape sh v"
proof (cases j)
  case (JObj kvs)
  with assms(1) have "has_members fs kvs" by simp
  from has_members_get [OF this map_of_SomeD [OF assms(2)]] JObj show ?thesis by simp
qed (use assms in simp_all)

subsection \<open>The answer of each tool\<close>

definition counter_shape :: shape where
  "counter_shape = Unsigned 64"

definition queued_shape :: shape where
  "queued_shape = Object [(''queued'', Exactly (JBool True)), (''instanceId'', Text), (''corr'', counter_shape)]"

definition painted_shape :: shape where
  "painted_shape = Object [(''accepted'', Exactly (JBool True)), (''painted'', Flag),
     (''generation'', counter_shape), (''activity'', Text), (''instanceId'', Text), (''corr'', counter_shape)]"

definition acked_shape :: shape where
  "acked_shape = Object [(''accepted'', Exactly (JBool True)), (''instanceId'', Text), (''corr'', counter_shape),
     (''generation'', Nullable counter_shape), (''activity'', Text)]"

definition inject_shape :: "bool \<Rightarrow> shape" where
  "inject_shape wait = (if wait then OneOf painted_shape acked_shape else queued_shape)"

definition step_shape :: shape where
  "step_shape = Object [(''index'', Natural), (''result'', OneOf (inject_shape True) (inject_shape False))]"

definition batch_shape :: shape where
  "batch_shape =
     OneOf (Object [(''instanceId'', Text), (''stopped'', Exactly (JBool False)), (''results'', ListOf step_shape)])
           (Object [(''instanceId'', Text), (''stopped'', Exactly (JBool True)), (''failedIndex'', Natural),
              (''error'', Text),
              (''results'', ListOf (OneOf step_shape (Object [(''index'', Natural), (''error'', Text)])))])"

definition instance_shape :: shape where
  "instance_shape = Object [(''instanceId'', Text), (''register'', Anything), (''lastHeartbeat'', Nullable Anything)]"

definition snapshot_shape :: shape where
  "snapshot_shape = Object [(''instanceId'', Text), (''corr'', counter_shape), (''mimeType'', Text),
     (''width'', Unsigned 32), (''height'', Unsigned 32), (''generation'', counter_shape)]"

definition started_shape :: shape where
  "started_shape = Object [(''instanceId'', Text), (''pid'', Natural), (''register'', Anything),
     (''lastHeartbeat'', Nullable Anything), (''sampleBook'', Flag), (''autoSleep'', Flag)]"

definition observe_shape :: "bool \<Rightarrow> shape" where
  "observe_shape waiting = Object
     ([(''instanceId'', Text), (''events'', ListOf Anything), (''generation'', Nullable counter_shape),
       (''activity'', Text), (''readerPage'', Whole), (''readerSpine'', Whole)] @
      (if waiting then [(''matched'', Flag), (''timedOut'', Flag)] else []))"

definition reply_shape :: "tool_call \<Rightarrow> shape" where
  "reply_shape call =
     (case call of
        ListInstances \<Rightarrow> Object [(''instances'', ListOf instance_shape)]
      | GetInstance _ \<Rightarrow> instance_shape
      | StartInstance _ \<Rightarrow> started_shape
      | InjectTouchCall p \<Rightarrow> inject_shape (itp_wait p)
      | InjectKeyCall p \<Rightarrow> inject_shape (ikp_wait p)
      | InjectHomeCall p \<Rightarrow> inject_shape (ihp_wait p)
      | InjectSwipeCall p \<Rightarrow> inject_shape (isp_wait p)
      | InjectBatchCall _ \<Rightarrow> batch_shape
      | SetInjectEnabledCall _ _ \<Rightarrow> queued_shape
      | RequestSnapshot p \<Rightarrow> (if snp_wait p then snapshot_shape else queued_shape)
      | SetSessionViewCall _ \<Rightarrow> queued_shape
      | ShutdownInstance _ \<Rightarrow> queued_shape
      | Observe p \<Rightarrow> observe_shape (is_waiting (obp_spec p)))"

definition is_image :: "content_block \<Rightarrow> bool" where
  "is_image b = (case b of ImageBlock _ mime \<Rightarrow> mime \<noteq> [] | TextBlock _ \<Rightarrow> False)"

text \<open>An answer of a call: an error is one block of text; a success is the text of a value of the
  call's shape, followed by an image exactly when a snapshot was waited for.\<close>

definition carries_image :: "tool_call \<Rightarrow> bool" where
  "carries_image call = (case call of RequestSnapshot p \<Rightarrow> snp_wait p | _ \<Rightarrow> False)"

definition typed_answer :: "(json \<Rightarrow> string) \<Rightarrow> tool_call \<Rightarrow> call_tool_result \<Rightarrow> bool" where
  "typed_answer txt call res \<longleftrightarrow>
     (case res of
        ToolError blocks \<Rightarrow> (\<exists>message. blocks = [TextBlock message])
      | ToolSuccess blocks \<Rightarrow>
          (\<exists>body images. blocks = TextBlock (txt body) # images \<and> has_shape (reply_shape call) body \<and>
             length images = (if carries_image call then 1 else 0) \<and> list_all is_image images))"

subsection \<open>The tools answer with their types\<close>

lemma counter_shape [simp]: "has_shape counter_shape (JNum (uint (c :: u64)))"
  using uint_lt2p [of c] by (simp add: counter_shape_def)

lemma enqueue_shape: "enqueue ts sc sel ack pl m = (Inr body, m') \<Longrightarrow> has_shape queued_shape body"
  by (auto simp: enqueue_def queued_shape_def Let_def split: sum.splits prod.splits)

lemma inject_reply_shape: "inject_reply i c reply m = Inr body \<Longrightarrow> has_shape (inject_shape True) body"
  by (auto simp: inject_reply_def inject_shape_def painted_shape_def acked_shape_def Let_def jopt_def
      split: option.splits sim_payload.splits if_splits)

lemma inject_shape: "inject ts sc sel w mode ms pl m = (Inr body, m') \<Longrightarrow> has_shape (inject_shape w) body"
  by (auto simp: inject_def Let_def dest: inject_reply_shape
      split: if_splits sum.splits prod.splits option.splits)
    (auto simp: inject_shape_def dest: enqueue_shape)

lemma inject_tools_shape:
  "inject_touch_json ts sc sel kind x y w mode space ms m = (Inr body, m') \<Longrightarrow> has_shape (inject_shape w) body"
  "inject_key_json ts sc sel name hold w mode ms m = (Inr body, m') \<Longrightarrow> has_shape (inject_shape w) body"
  "inject_home_json ts sc sel hold w mode ms m = (Inr body, m') \<Longrightarrow> has_shape (inject_shape w) body"
  "inject_swipe_json ts sc sel sx sy ex ey d w mode space ms m = (Inr body, m') \<Longrightarrow> has_shape (inject_shape w) body"
  by (auto simp: inject_touch_json_def inject_key_json_def inject_home_json_def inject_swipe_json_def
      dest: inject_shape split: sum.splits)

lemma batch_step_shape:
  assumes "batch_step ts sc i w mode sp ms st m = (Inr body, m')"
  shows "has_shape (OneOf (inject_shape True) (inject_shape False)) body"
proof -
  from assms have "\<exists>b. has_shape (inject_shape b) body"
    by (auto simp: batch_step_def Let_def split: if_splits intro: inject_tools_shape)
  then obtain b where "has_shape (inject_shape b) body" ..
  then show ?thesis by (cases b) simp_all
qed

lemma step_result_shape:
  "has_shape (OneOf (inject_shape True) (inject_shape False)) v \<Longrightarrow>
   has_shape step_shape (JObj [(''index'', JNum (int n)), (''result'', v)])"
  by (simp add: step_shape_def)

lemma batch_loop_shape:
  assumes "batch_loop run g i index results sts m = (body, m')"
    and steps: "\<And>st m1 v m2. run st m1 = (Inr v, m2) \<Longrightarrow> has_shape (OneOf (inject_shape True) (inject_shape False)) v"
    and "list_all (has_shape step_shape) results"
  shows "has_shape batch_shape body"
  using assms(1,3)
proof (induction sts arbitrary: index results m)
  case Nil
  then show ?case by (auto simp: batch_shape_def)
next
  case (Cons st sts)
  obtain r m1 where run: "run st (g m) = (r, m1)" by fastforce
  show ?case
  proof (cases r)
    case (Inl e)
    with Cons.prems run show ?thesis by (auto simp: batch_shape_def list_all_iff)
  next
    case (Inr v)
    with run have "run st (g m) = (Inr v, m1)" by simp
    note ok = step_result_shape [OF steps [OF this], of index]
    show ?thesis
    proof (rule Cons.IH)
      show "batch_loop run g i (Suc index)
          (results @ [JObj [(''index'', JNum (int index)), (''result'', v)]]) sts m1 = (body, m')"
        using Cons.prems(1) run Inr by simp
      show "list_all (has_shape step_shape)
          (results @ [JObj [(''index'', JNum (int index)), (''result'', v)]])"
        using Cons.prems(2) ok by (simp del: has_shape.simps)
    qed
  qed
qed

lemma inject_batch_shape:
  "inject_batch_json ts sc sel w mode sp ms sts m = (Inr body, m') \<Longrightarrow> has_shape batch_shape body"
  by (auto simp: inject_batch_json_def Let_def split: sum.splits prod.splits
      intro: batch_loop_shape [OF _ batch_step_shape])

lemma session_view_shape:
  "set_session_view_json ts sc sel paths excluded m = (Inr body, m') \<Longrightarrow> has_shape queued_shape body"
  by (auto simp: set_session_view_json_def Let_def dest: enqueue_shape split: sum.splits prod.splits)

lemma snapshot_json_shape [simp]: "has_shape instance_shape (snapshot_json rj hj snap)"
  by (auto simp: instance_shape_def snapshot_json_def)

lemma list_instances_shape [simp]:
  "has_shape (Object [(''instances'', ListOf instance_shape)]) (list_instances_json rj hj m)"
  by (auto simp: list_instances_json_def list_all_iff)

lemma get_instance_shape: "get_instance_json rj hj sel m = Inr body \<Longrightarrow> has_shape instance_shape body"
  by (auto simp: get_instance_json_def split: sum.splits)

lemma observe_result_shape:
  "has_shape (observe_shape inc) (fst (observe_result env i events inc matched late r))"
  by (auto simp: observe_result_def locked_eq observe_shape_def jopt_def Let_def list_all_iff split: option.splits)


lemma observe_loop_shape:
  assumes "observe_loop env clk enc ul gf ua up waiting deadline i j events r = Some y" and "fst y = Inr body"
  shows "has_shape (observe_shape waiting) body"
  using assms
proof (induction env clk enc ul gf ua up waiting deadline i j events r y arbitrary: body
    rule: observe_loop.raw_induct [rotated, consumes 1])
  case (1 loop env clk enc ul gf ua up waiting deadline i j events r y)
  let ?r1 = "pass_run env r"
  let ?matched = "pass_match ul gf ua up events i (run_map ?r1)"
  let ?stop = "waiting \<and> (?matched \<or> deadline \<le> clk j) \<or> \<not> waiting \<and> deadline \<le> clk j"
  have run: "(if ?stop
      then (case observe_result env i events waiting ?matched (waiting \<and> \<not> ?matched) ?r1 of
              (body, r2) \<Rightarrow> Some (Inr body, r2))
      else Option.bind (drain_observe env enc (Some i) ?r1)
             (\<lambda>(res, r2). case res of Inl e \<Rightarrow> Some (Inl e, r2)
                | Inr (i', newer) \<Rightarrow> loop env clk enc ul gf ua up waiting deadline i (Suc j) (events @ newer) r2))
      = Some y"
    using 1(2) by (simp only: locked_eq peek_sel pass_run_def pass_match_def Let_def prod.case run.simps)
  show ?case
  proof (cases ?stop)
    case True
    with run 1(3) have "body = fst (observe_result env i events waiting ?matched (waiting \<and> \<not> ?matched) ?r1)"
      by (auto split: prod.splits)
    then show ?thesis using observe_result_shape by metis
  next
    case False
    with run obtain res r2 where "drain_observe env enc (Some i) ?r1 = Some (res, r2)"
      and k: "(case res of Inl e \<Rightarrow> Some (Inl e, r2)
        | Inr (i', newer) \<Rightarrow> loop env clk enc ul gf ua up waiting deadline i (Suc j) (events @ newer) r2) = Some y"
      by (cases "drain_observe env enc (Some i) ?r1") auto
    show ?thesis
    proof (cases res)
      case (Inl e)
      with k 1(3) show ?thesis by auto
    next
      case (Inr found)
      with k obtain newer where
        "loop env clk enc ul gf ua up waiting deadline i (Suc j) (events @ newer) r2 = Some y" by (cases found) auto
      from "1.IH" [OF this 1(3)] show ?thesis .
    qed
  qed
qed

lemma observe_wait_shape:
  assumes "observe_wait_json env clk enc dflt sel spec r = Some (Inr body, r')"
  shows "has_shape (observe_shape (is_waiting spec)) body"
proof -
  obtain i events r1 where "drain_observe env enc sel r = Some (Inr (i, events), r1)"
    using assms by (auto simp: observe_wait_json_def split: option.splits sum.splits)
  with assms obtain gf r2 where
    "observe_loop env clk enc (non_empty (sp_until_log spec)) gf (non_empty (sp_until_activity spec))
       (sp_until_progress_page spec) (is_waiting spec) (clk 0 + timeout_ms dflt spec) i 1 events r2
     = Some (Inr body, r')"
    by (auto simp: observe_wait_json_def Let_def split: if_splits prod.splits)
  from observe_loop_shape [OF this] show ?thesis by simp
qed

lemma register_loop_shape:
  assumes "register_loop ops rj hj env senv clk deadline i pid sb as j r s = Some y" and "fst y = Inr body"
  shows "has_shape started_shape body"
  using assms
proof (induction ops rj hj env senv clk deadline i pid sb as j r s y arbitrary: body
    rule: register_loop.raw_induct [rotated, consumes 1])
  case (1 loop ops rj hj env senv clk deadline i pid sb as j r s y)
  obtain found r1 where poll: "locked env (peek (inst_get i)) r = (found, r1)" by fastforce
  show ?case
  proof (cases found)
    case (Some snap)
    with 1(2,3) poll show ?thesis by (auto simp: started_shape_def)
  next
    case None
    with 1(2,3) poll have "loop ops rj hj env senv clk deadline i pid sb as (Suc j) r1
        (snd (child_alive ops i (senv j s))) = Some y"
      by (auto split: if_splits prod.splits)
    from "1.IH" [OF this 1(3)] show ?thesis .
  qed
qed

lemma start_instance_shape:
  assumes "start_instance_json ops cfg rj hj env senv clk i hd' cwd sb as r s = Some (Inr body, r', s')"
  shows "has_shape started_shape body"
proof -
  obtain found r1 where poll: "locked env (peek (inst_get i)) r = (found, r1)" by fastforce
  obtain started s1 where st: "start ops cfg (senv 0) i hd' cwd (found \<noteq> None) sb as s = (started, s1)" by fastforce
  obtain pid where "started = Inr pid"
    using assms poll st by (cases started) (auto simp: start_instance_json_def split: if_splits)
  with assms poll st obtain y where
    run: "register_loop ops rj hj env senv clk (clk 0 + cfg_wait cfg) i pid sb as 1 r1 s1 = Some y"
    and out: "(case fst y of Inl e \<Rightarrow> Inl (spawn_error_text e) | Inr b \<Rightarrow> Inr b) = (Inr body :: string + json)"
    by (auto simp: start_instance_json_def split: if_splits)
  from out have "fst y = Inr body" by (cases "fst y") simp_all
  with run show ?thesis by (rule register_loop_shape)
qed

text \<open>Answers as blocks.\<close>

lemma typed_tool_result:
  assumes "\<And>body. res = Inr body \<Longrightarrow> has_shape (reply_shape call) body" and "\<not> carries_image call"
  shows "typed_answer txt call (tool_result txt res)"
  using assms by (cases res) (auto simp: typed_answer_def tool_result_def)

lemma typed_on_map:
  assumes "on_map txt s out = Some (res, m', s')"
    and "\<And>body m1. out = (Inr body, m1) \<Longrightarrow> has_shape (reply_shape call) body" and "\<not> carries_image call"
  shows "typed_answer txt call res"
proof -
  obtain r m1 where out: "out = (r, m1)" by fastforce
  with assms(1) have "res = tool_result txt r" by (simp add: on_map_def)
  with typed_tool_result [of r call "txt"] assms(2,3) out show ?thesis by blast
qed

lemma typed_error [simp]: "typed_answer txt call (tool_result txt (Inl message))"
  by (simp add: typed_answer_def tool_result_def)

lemma snapshot_reply_typed:
  assumes "snp_wait p"
  shows "typed_answer txt (RequestSnapshot p) (snapshot_reply txt b64 i c reply)"
proof (cases "\<exists>frame. payload reply = Some (Snapshot frame)")
  case True
  then obtain frame where pl: "payload reply = Some (Snapshot frame)" ..
  let ?mime = "if sf_mime_type frame = [] then ''image/png'' else sf_mime_type frame"
  let ?body = "JObj [(''instanceId'', JStr i), (''corr'', JNum (uint c)), (''mimeType'', JStr ?mime),
    (''width'', JNum (uint (sf_width frame))), (''height'', JNum (uint (sf_height frame))),
    (''generation'', JNum (uint (sf_generation frame)))]"
  have "snapshot_reply txt b64 i c reply = ToolSuccess [TextBlock (txt ?body), ImageBlock (b64 (sf_pixels frame)) ?mime]"
    using pl by (simp add: snapshot_reply_def Let_def)
  moreover have "has_shape (reply_shape (RequestSnapshot p)) ?body"
    using assms uint_lt2p [of "sf_width frame"] uint_lt2p [of "sf_height frame"]
    by (simp add: reply_shape_def snapshot_shape_def)
  ultimately show ?thesis using assms by (auto simp: typed_answer_def carries_image_def is_image_def)
next
  case False
  then show ?thesis by (auto simp: snapshot_reply_def split: option.splits sim_payload.splits)
qed

lemma snapshot_answer_typed:
  assumes "request_snapshot_result ts sc txt b64 (snp_instance_id p) (snp_request p) (snp_wait p) m = (res, m')"
  shows "typed_answer txt (RequestSnapshot p) res"
proof (cases "snp_wait p")
  case True
  with assms show ?thesis
    by (auto simp: request_snapshot_result_def snapshot_reply_typed split: prod.splits sum.splits)
next
  case False
  obtain queued m1 where q: "enqueue ts sc (snp_instance_id p) False (SnapshotRequest (snp_request p)) m = (queued, m1)"
    by fastforce
  with assms False have "res = tool_result txt queued" by (simp add: request_snapshot_result_def)
  moreover have "typed_answer txt (RequestSnapshot p) (tool_result txt queued)"
    using False q by (intro typed_tool_result)
      (auto simp: reply_shape_def carries_image_def simp del: has_shape.simps dest: enqueue_shape)
  ultimately show ?thesis by simp
qed

lemmas answer_shapes =
  inject_tools_shape enqueue_shape session_view_shape inject_batch_shape get_instance_shape




end
