(* ===== verification/Map_Tests.thy ===== *)
theory Map_Tests
  imports Session
begin

text \<open>
  The unit tests of \<open>crates/csm-proxy/src/instances.rs\<close>, run on the model. Each test function is a
  boolean definition with the assertions of the source in their order, and a lemma that it holds; so
  the definitions of \<open>Inbound_Queue\<close>, \<open>Instance_Map\<close> and \<open>Waiters\<close> agree with the code wherever the
  code's authors wrote down what they expect.

  A test that drives a future by hand polls it, acts on the map and awaits it: \<open>polled act\<close> is the
  schedule in which the map does \<open>act\<close> while the call waits. One test does not test what its name
  says, and \<open>ui_result_test_is_blind\<close> shows why.
\<close>

subsection \<open>Fixtures\<close>

text \<open>A \<open>tokio\<close> channel of a given capacity, open or with its receiver dropped.\<close>

record test_chan =
  tc_cap :: nat
  tc_items :: "server_to_sim list"
  tc_closed :: bool

definition tc_new :: "nat \<Rightarrow> test_chan" where
  "tc_new n = \<lparr>tc_cap = n, tc_items = [], tc_closed = False\<rparr>"

definition tc_send :: "test_chan try_send_fn" where
  "tc_send ch msg =
     (if tc_closed ch \<or> tc_cap ch \<le> length (tc_items ch) then None
      else Some (ch\<lparr>tc_items := tc_items ch @ [msg]\<rparr>))"

type_synonym test_map = "test_chan imap"

definition empty_map :: test_map where
  "empty_map = imap_new (\<lambda>_. tc_new 0)"

definition default_register :: "string \<Rightarrow> register" where
  "default_register i =
     \<lparr>reg_instance_id = i, reg_board_id = [], reg_controller = [], reg_width = 0, reg_height = 0,
      reg_cap_touch = False, reg_cap_home = False, reg_cap_frontlight = False, reg_pid = 0, reg_version = []\<rparr>"

definition default_heartbeat :: heartbeat where
  "default_heartbeat =
     \<lparr>hb_framebuffer_generation = 0, hb_inject_enabled = False, hb_headless = False, hb_activity = [],
      hb_reader_spine = 0, hb_reader_page = 0, hb_orientation = 0\<rparr>"

definition default_frame :: snapshot_frame where
  "default_frame = \<lparr>sf_pixels = [], sf_mime_type = [], sf_hash = [], sf_generation = 0, sf_width = 0, sf_height = 0\<rparr>"

definition default_ack :: input_ack where
  "default_ack = \<lparr>ack_accepted = False, ack_reason = []\<rparr>"

definition default_ui_result :: ui_result where
  "default_ui_result = \<lparr>ui_painted = False, ui_generation = 0, ui_activity = []\<rparr>"

definition inbound_msg :: "u64 \<Rightarrow> sim_to_server" where
  "inbound_msg n = \<lparr>seq = n, corr = 0, payload = None\<rparr>"

definition outbound_msg :: "u64 \<Rightarrow> server_to_sim" where
  "outbound_msg c = \<lparr>req_corr = c, req_ack_requested = False, req_payload = Some Shutdown\<rparr>"

definition heartbeat_msg :: "u64 \<Rightarrow> sim_to_server" where
  "heartbeat_msg n = \<lparr>seq = n, corr = 0, payload = Some (Heartbeat default_heartbeat)\<rparr>"

definition log_component_msg :: "u64 \<Rightarrow> string \<Rightarrow> string \<Rightarrow> sim_to_server" where
  "log_component_msg n component line =
     \<lparr>seq = n, corr = 0,
      payload = Some (Log \<lparr>log_seq = 0, log_ty = LogTypeUnspecified, log_severity = SeverityUnspecified,
                            log_component = component, log_text = line\<rparr>)\<rparr>"

definition log_line_msg :: "u64 \<Rightarrow> string \<Rightarrow> sim_to_server" where
  "log_line_msg n line = log_component_msg n [] line"

definition test_reply :: "u64 \<Rightarrow> sim_payload option \<Rightarrow> sim_to_server" where
  "test_reply c p = \<lparr>seq = 0, corr = c, payload = p\<rparr>"

text \<open>\<open>let (tx, _rx) = mpsc::channel(n); map.insert(register(id), cap, tx)\<close>: the receiver lives to the
  end of the test. \<open>insert_id\<close> drops it when it returns.\<close>

definition add_instance :: "nat \<Rightarrow> string \<Rightarrow> nat \<Rightarrow> test_map \<Rightarrow> u64 \<times> test_map" where
  "add_instance n i cap m =
     (let (tx, m1) = mpsc_channel (tc_new n) m in imap_insert (default_register i) cap tx m1)"

definition insert_id :: "string \<Rightarrow> test_map \<Rightarrow> test_map" where
  "insert_id i m =
     (let (tx, m1) = mpsc_channel (tc_new 1) m;
          (_, m2) = imap_insert (default_register i) 4 tx m1
      in m2\<lparr>im_outq := (im_outq m2)(tx := (tc_new 1)\<lparr>tc_closed := True\<rparr>)\<rparr>)"

text \<open>\<open>InboundSink::push\<close>: the sink shares the queue of the session it was made for, here the session
  that holds the id.\<close>

definition inbound_sink_push :: "string \<Rightarrow> sim_to_server \<Rightarrow> 'ch imap \<Rightarrow> 'ch imap" where
  "inbound_sink_push i msg m =
     (case hm_get (im_inner m) i of
        None \<Rightarrow> m
      | Some inst \<Rightarrow>
          m\<lparr>im_inner := hm_insert i (inst\<lparr>inst_inbound := iq_push msg (inst_inbound inst)\<rparr>) (im_inner m)\<rparr>)"

text \<open>\<open>std::iter::from_fn(|| map.try_recv_inbound(id).map(|msg| msg.seq)).collect()\<close>, with the queue's
  capacity as the bound of the loop.\<close>

fun recv_all :: "nat \<Rightarrow> string \<Rightarrow> 'ch imap \<Rightarrow> u64 list" where
  "recv_all 0 i m = []"
| "recv_all (Suc n) i m =
     (case try_recv_inbound i m of (None, _) \<Rightarrow> [] | (Some msg, m') \<Rightarrow> seq msg # recv_all n i m')"

definition recv_seq :: "string \<Rightarrow> 'ch imap \<Rightarrow> u64 option \<times> 'ch imap" where
  "recv_seq i m = (case try_recv_inbound i m of (msg, m') \<Rightarrow> (map_option seq msg, m'))"

text \<open>Poll the waiting call once and find it pending; act on the map; await the call.\<close>

definition polled :: "('ch imap \<Rightarrow> 'ch imap) \<Rightarrow> 'ch sched" where
  "polled act =
     \<lparr>gap = (\<lambda>m. m),
      await_rx = (\<lambda>rx t m.
        let m' = (if im_tx_fate m rx = TxOpen then act m else m)
        in (case im_tx_fate m' rx of TxSent msg \<Rightarrow> RxReply msg | TxDropped \<Rightarrow> RxClosed | TxOpen \<Rightarrow> RxElapsed, m'))\<rparr>"

definition resolved_id :: "resolve_error + instance_snapshot \<Rightarrow> resolve_error + string" where
  "resolved_id r = map_sum id (\<lambda>snap. reg_instance_id (snap_register snap)) r"

subsection \<open>Tests\<close>

definition default_map_is_empty :: bool where
  "default_map_is_empty \<longleftrightarrow>
     (let m = empty_map in
      list_ids m = [] \<and> inst_get ''missing'' m = None \<and> \<not> owns ''missing'' 1 m \<and>
      fst (try_send tc_send ''missing'' (outbound_msg 1) m) = Inl SendUnknownInstance \<and>
      fst (try_recv_inbound ''missing'' m) = None)"

definition insert_owns_and_replace :: bool where
  "insert_owns_and_replace \<longleftrightarrow>
     (let (token, m) = add_instance 1 ''a'' 4 empty_map;
          (token2, m2) = add_instance 1 ''a'' 4 m in
      owns ''a'' token m \<and> \<not> owns ''a'' (token + 1) m \<and> list_ids m = [''a''] \<and>
      map_option (\<lambda>s. reg_instance_id (snap_register s)) (inst_get ''a'' m) = Some ''a'' \<and>
      token \<noteq> token2 \<and> owns ''a'' token2 m2 \<and> \<not> owns ''a'' token m2)"

definition heartbeat_and_remove_respect_token :: bool where
  "heartbeat_and_remove_respect_token \<longleftrightarrow>
     (let (token, m) = add_instance 1 ''a'' 4 empty_map;
          hb = default_heartbeat\<lparr>hb_framebuffer_generation := 3, hb_inject_enabled := True\<rparr>;
          m1 = set_heartbeat ''a'' (token + 1) hb m;
          m2 = set_heartbeat ''a'' token hb m1;
          m3 = remove_if ''a'' (token + 1) m2;
          m4 = remove_if ''a'' token m3 in
      map_option snap_last_heartbeat (inst_get ''a'' m1) = Some None \<and>
      map_option hb_framebuffer_generation (Option.bind (inst_get ''a'' m2) snap_last_heartbeat) = Some 3 \<and>
      inst_get ''a'' m3 \<noteq> None \<and> inst_get ''a'' m4 = None)"

definition inbound_drops_oldest_when_full :: bool where
  "inbound_drops_oldest_when_full \<longleftrightarrow>
     (let (_, m) = add_instance 1 ''q'' 2 empty_map;
          m1 = fold (inbound_sink_push ''q'') [inbound_msg 1, inbound_msg 2, inbound_msg 3] m;
          (a, m2) = recv_seq ''q'' m1; (b, m3) = recv_seq ''q'' m2; (c, _) = recv_seq ''q'' m3 in
      a = Some 2 \<and> b = Some 3 \<and> c = None)"

definition inbound_prefers_dropping_heartbeats_when_full :: bool where
  "inbound_prefers_dropping_heartbeats_when_full \<longleftrightarrow>
     (let (_, m) = add_instance 1 ''q'' 2 empty_map;
          m1 = fold (inbound_sink_push ''q'') [heartbeat_msg 1, log_line_msg 2 ''keep'', heartbeat_msg 3] m;
          (first, m2) = try_recv_inbound ''q'' m1; (second, m3) = try_recv_inbound ''q'' m2;
          (third, m4) = try_recv_inbound ''q'' m3;
          kept = recv_all 2 ''q''
            (fold (inbound_sink_push ''q'') [heartbeat_msg 4, heartbeat_msg 5, log_line_msg 6 ''later''] m4) in
      (case first of
         Some msg \<Rightarrow> (case payload msg of Some (Heartbeat _) \<Rightarrow> True | _ \<Rightarrow> False) \<and> seq msg = 1
       | None \<Rightarrow> False) \<and>
      (case second of
         Some msg \<Rightarrow> (case payload msg of Some (Log _) \<Rightarrow> True | _ \<Rightarrow> False) \<and> seq msg = 2
       | None \<Rightarrow> False) \<and>
      third = None \<and> List.member kept 6 \<and> (\<not> List.member kept 4 \<or> \<not> List.member kept 5))"

definition push_inbound_skips_payloads_outside_the_session_view :: bool where
  "push_inbound_skips_payloads_outside_the_session_view \<longleftrightarrow>
     (let m = set_read_mask ''a'' [''log''] (insert_id ''a'' empty_map);
          m1 = push_inbound ''a'' (log_line_msg 2 ''keep'') (push_inbound ''a'' (heartbeat_msg 1) m);
          (got, m2) = recv_seq ''a'' m1; (rest, _) = recv_seq ''a'' m2 in
      got = Some 2 \<and> rest = None)"

definition outbound_try_send_and_queue_full :: bool where
  "outbound_try_send_and_queue_full \<longleftrightarrow>
     (let (_, m) = add_instance 1 ''q'' 2 empty_map;
          (sent, m1) = try_send tc_send ''q'' (outbound_msg 1) m;
          (again, _) = try_send tc_send ''q'' (outbound_msg 2) m1 in
      sent = Inr () \<and> again = Inl SendQueueFull)"

definition instance_id_rejects_empty_and_overlong :: bool where
  "instance_id_rejects_empty_and_overlong \<longleftrightarrow>
     \<not> is_valid_instance_id '''' \<and> \<not> is_valid_instance_id (replicate (INSTANCE_ID_MAX_LEN + 1) CHR ''x'') \<and>
     is_valid_instance_id ''a'' \<and> is_valid_instance_id (replicate INSTANCE_ID_MAX_LEN CHR ''x'')"

definition resolve_requires_a_real_id :: bool where
  "resolve_requires_a_real_id \<longleftrightarrow>
     (let m = insert_id ''only'' empty_map in
      resolved_id (resolve '''' m) = Inl EmptyId \<and>
      resolved_id (resolve (replicate (INSTANCE_ID_MAX_LEN + 1) CHR ''x'') m) = Inl EmptyId \<and>
      resolved_id (resolve_or_default None m) = Inl EmptyId \<and>
      resolved_id (resolve_or_default (Some '''') m) = Inl EmptyId \<and>
      resolved_id (resolve ''only'' m) = Inr ''only'')"

definition resolve_does_not_infer_the_only_connected_instance :: bool where
  "resolve_does_not_infer_the_only_connected_instance \<longleftrightarrow>
     (let m = insert_id ''only'' empty_map; m1 = insert_id ''other'' m in
      resolved_id (resolve_or_default None m) = Inl EmptyId \<and>
      resolved_id (resolve_or_default None m1) = Inl EmptyId)"

definition resolve_named_id :: bool where
  "resolve_named_id \<longleftrightarrow>
     (let m = insert_id ''b'' (insert_id ''a'' empty_map) in
      resolved_id (resolve ''b'' m) = Inr ''b'' \<and> resolved_id (resolve ''nope'' m) = Inl UnknownInstance)"

definition resolve_or_default_uses_configured_id_only :: bool where
  "resolve_or_default_uses_configured_id_only \<longleftrightarrow>
     (let m = set_default_instance (Some ''hint'') empty_map;
          m1 = insert_id ''hint'' (insert_id ''a'' m) in
      default_instance m = Some ''hint'' \<and> resolved_id (resolve_or_default None m) = Inl UnknownInstance \<and>
      resolved_id (resolve_or_default None m1) = Inr ''hint'' \<and>
      resolved_id (resolve_or_default (Some ''a'') m1) = Inr ''a'' \<and> resolved_id (resolve ''a'' m1) = Inr ''a'')"

definition resolve_ignores_empty_or_overlong_default :: bool where
  "resolve_ignores_empty_or_overlong_default \<longleftrightarrow>
     (let m = set_default_instance (Some '''') empty_map;
          m1 = set_default_instance (Some (replicate (INSTANCE_ID_MAX_LEN + 1) CHR ''x'')) m;
          m2 = insert_id ''only'' m1 in
      default_instance m = None \<and> default_instance m1 = None \<and>
      resolved_id (resolve_or_default None m2) = Inl EmptyId)"


definition send_and_wait_completes_on_matching_corr :: bool where
  "send_and_wait_completes_on_matching_corr \<longleftrightarrow>
     (let (_, m) = add_instance 4 ''a'' 4 empty_map;
          (c, m1) = next_corr m;
          (res, m2) = send_and_wait tc_send (polled (push_inbound ''a'' (test_reply c None))) ''a''
                        (outbound_msg c) REPLY_TIMEOUT m1 in
      (case res of Inr got \<Rightarrow> corr got = c | Inl _ \<Rightarrow> False) \<and>
      map_option corr (fst (try_recv_inbound ''a'' m2)) = Some c)"

definition send_and_wait_times_out :: bool where
  "send_and_wait_times_out \<longleftrightarrow>
     (let (_, m) = add_instance 4 ''a'' 4 empty_map in
      fst (send_and_wait tc_send (polled (\<lambda>m. m)) ''a'' (outbound_msg 7) 20 m) = Inl WaitTimeout)"

definition send_and_wait_fails_when_instance_drops :: bool where
  "send_and_wait_fails_when_instance_drops \<longleftrightarrow>
     (let (token, m) = add_instance 4 ''a'' 4 empty_map in
      fst (send_and_wait tc_send (polled (remove_if ''a'' token)) ''a'' (outbound_msg 3) REPLY_TIMEOUT m) =
        Inl WaitDisconnected)"

definition send_and_wait_unknown_and_queue_full :: bool where
  "send_and_wait_unknown_and_queue_full \<longleftrightarrow>
     (let idle = polled (\<lambda>m. m);
          (_, m) = add_instance 1 ''a'' 4 empty_map;
          (sent, m1) = try_send tc_send ''a'' (outbound_msg 1) m in
      fst (send_and_wait tc_send idle ''missing'' (outbound_msg 1) REPLY_TIMEOUT empty_map) =
        Inl WaitUnknownInstance \<and>
      sent = Inr () \<and>
      fst (send_and_wait tc_send idle ''a'' (outbound_msg 2) REPLY_TIMEOUT m1) = Inl WaitQueueFull)"

definition read_mask_defaults_empty_and_can_be_set :: bool where
  "read_mask_defaults_empty_and_can_be_set \<longleftrightarrow>
     (let m = insert_id ''a'' (set_read_mask ''missing'' [''log''] empty_map);
          m1 = set_read_mask ''a'' [''log'', ''goodbye''] m in
      read_mask ''missing'' empty_map = None \<and> read_mask ''a'' m = Some [] \<and>
      read_mask ''a'' m1 = Some [''log'', ''goodbye''])"

definition named_payloads :: "(sim_payload \<times> string) list" where
  "named_payloads =
     [(Register (default_register ''a''), ''register''), (Heartbeat default_heartbeat, ''heartbeat''),
      (Snapshot default_frame, ''snapshot''), (SnapshotError \<lparr>se_message = []\<rparr>, ''snapshot_error''),
      (Log \<lparr>log_seq = 0, log_ty = LogTypeUnspecified, log_severity = SeverityUnspecified,
            log_component = [], log_text = []\<rparr>, ''log''),
      (InputAck default_ack, ''input_ack''),
      (InputObserved \<lparr>obs_source = SourceUnspecified, obs_event = None\<rparr>, ''input_observed''),
      (Goodbye \<lparr>bye_reason = []\<rparr>, ''goodbye''), (UiResult default_ui_result, ''ui_result'')]"

definition inbound_visible_matches_payload_names :: bool where
  "inbound_visible_matches_payload_names \<longleftrightarrow>
     list_all (\<lambda>(p, name).
       let msg = test_reply 0 (Some p) in
       inbound_payload_name msg = Some name \<and> inbound_visible [] msg \<and> inbound_visible [name] msg \<and>
       \<not> inbound_visible [''other''] msg) named_payloads \<and>
     inbound_payload_name (test_reply 0 None) = None \<and> inbound_visible [] (test_reply 0 None) \<and>
     \<not> inbound_visible [''log''] (test_reply 0 None)"

definition inbound_never_drops_act_ers_or_acks :: bool where
  "inbound_never_drops_act_ers_or_acks \<longleftrightarrow>
     (let (_, m) = add_instance 1 ''q'' 4 empty_map;
          msgs = [log_component_msg 1 ''MEM'' ''heap'', log_component_msg 2 ''SCT'' ''index'',
                  log_component_msg 3 ''MEM'' ''heap2'', log_component_msg 4 ''SCT'' ''index2'',
                  log_component_msg 5 ''ACT'' ''Entering activity: Home'',
                  log_component_msg 6 ''ERS'' ''Rendered page'',
                  \<lparr>seq = 7, corr = 0, payload = Some (InputAck default_ack)\<rparr>,
                  \<lparr>seq = 8, corr = 0, payload = Some (UiResult default_ui_result)\<rparr>] in
      recv_all 5 ''q'' (fold (inbound_sink_push ''q'') msgs m) = [5, 6, 7, 8])"

definition push_inbound_drops_excluded_log_components :: bool where
  "push_inbound_drops_excluded_log_components \<longleftrightarrow>
     (let m = set_exclude_log_components ''a'' [''MEM''] (insert_id ''a'' empty_map);
          m1 = push_inbound ''a'' (log_component_msg 2 ''ACT'' ''Entering activity: Home'')
                 (push_inbound ''a'' (log_component_msg 1 ''MEM'' ''heap'') m);
          (got, m2) = recv_seq ''a'' m1; (rest, _) = recv_seq ''a'' m2 in
      got = Some 2 \<and> rest = None)"

text \<open>The future of the next test is lazy: it does nothing before it is first polled, and the test
  pushes the accepted acknowledgement before. So the acknowledgement comes when no waiter is
  registered yet; \<open>k\<close> is the kind the call waits for.\<close>

definition ui_result_test :: "wait_kind \<Rightarrow> bool" where
  "ui_result_test k \<longleftrightarrow>
     (let (_, m) = add_instance 4 ''a'' 4 empty_map;
          (c, m1) = next_corr m;
          m2 = push_inbound ''a'' (test_reply c (Some (InputAck (default_ack\<lparr>ack_accepted := True\<rparr>)))) m1;
          painted = \<lparr>ui_painted = True, ui_generation = 9, ui_activity = ''Home''\<rparr>;
          (res, _) = send_and_wait_for tc_send (polled (push_inbound ''a'' (test_reply c (Some (UiResult painted)))))
                       ''a'' (outbound_msg c) REPLY_TIMEOUT k m2 in
      (case res of
         Inr got \<Rightarrow>
           (case payload got of
              Some (UiResult result) \<Rightarrow>
                ui_painted result \<and> ui_generation result = 9 \<and> ui_activity result = ''Home''
            | _ \<Rightarrow> False)
       | Inl _ \<Rightarrow> False))"

definition send_and_wait_for_ui_result_ignores_accepted_ack :: bool where
  "send_and_wait_for_ui_result_ignores_accepted_ack \<longleftrightarrow> ui_result_test WaitUiResult"

definition send_and_wait_for_ui_result_fails_fast_on_rejected_ack :: bool where
  "send_and_wait_for_ui_result_fails_fast_on_rejected_ack \<longleftrightarrow>
     (let (_, m) = add_instance 4 ''a'' 4 empty_map;
          (c, m1) = next_corr m;
          ack = \<lparr>ack_accepted = False, ack_reason = ''no_touch''\<rparr>;
          (res, _) = send_and_wait_for tc_send (polled (push_inbound ''a'' (test_reply c (Some (InputAck ack)))))
                       ''a'' (outbound_msg c) REPLY_TIMEOUT WaitUiResult m1 in
      (case res of
         Inr got \<Rightarrow>
           (case payload got of
              Some (InputAck ack) \<Rightarrow> \<not> ack_accepted ack \<and> ack_reason ack = ''no_touch''
            | _ \<Rightarrow> False)
       | Inl _ \<Rightarrow> False))"

subsection \<open>The model passes them\<close>

lemma recv_all_numeral:
  "recv_all (numeral k) i m =
     (case try_recv_inbound i m of (None, _) \<Rightarrow> []
      | (Some msg, m') \<Rightarrow> seq msg # recv_all (pred_numeral k) i m')"
  by (simp add: numeral_eq_Suc)

text \<open>Evaluating a full queue: the key of an item is a rank and a position counted from the top.\<close>

lemmas queue_eval =
  Let_def add_instance_def mpsc_channel_def imap_insert_def empty_map_def imap_new_def default_register_def
  inbound_sink_push_def iq_new_def iq_push_def eviction_index_def usize_max_def
  eviction_rank_def is_heartbeat_def is_never_drop_def vec_remove_def recv_seq_def try_recv_inbound_def
  iq_try_recv_def inbound_msg_def heartbeat_msg_def log_line_msg_def log_component_msg_def
  recv_all_numeral default_ack_def default_ui_result_def

lemma default_map_is_empty_passes: default_map_is_empty
  by code_simp

lemma insert_owns_and_replace_passes: insert_owns_and_replace
  by code_simp

lemma heartbeat_and_remove_respect_token_passes: heartbeat_and_remove_respect_token
  by code_simp

lemma inbound_drops_oldest_when_full_passes: inbound_drops_oldest_when_full
  by (simp add: inbound_drops_oldest_when_full_def queue_eval)

lemma inbound_prefers_dropping_heartbeats_when_full_passes: inbound_prefers_dropping_heartbeats_when_full
  by (simp add: inbound_prefers_dropping_heartbeats_when_full_def queue_eval)

lemma push_inbound_skips_payloads_outside_the_session_view_passes: push_inbound_skips_payloads_outside_the_session_view
  by code_simp

lemma outbound_try_send_and_queue_full_passes: outbound_try_send_and_queue_full
  by code_simp

lemma instance_id_rejects_empty_and_overlong_passes: instance_id_rejects_empty_and_overlong
  by code_simp

lemma resolve_requires_a_real_id_passes: resolve_requires_a_real_id
  by code_simp

lemma resolve_does_not_infer_the_only_connected_instance_passes: resolve_does_not_infer_the_only_connected_instance
  by code_simp

lemma resolve_named_id_passes: resolve_named_id
  by code_simp

lemma resolve_or_default_uses_configured_id_only_passes: resolve_or_default_uses_configured_id_only
  by code_simp

lemma resolve_ignores_empty_or_overlong_default_passes: resolve_ignores_empty_or_overlong_default
  by code_simp

lemma send_and_wait_completes_on_matching_corr_passes: send_and_wait_completes_on_matching_corr
  by code_simp

lemma send_and_wait_times_out_passes: send_and_wait_times_out
  by code_simp

lemma send_and_wait_fails_when_instance_drops_passes: send_and_wait_fails_when_instance_drops
  by code_simp

lemma send_and_wait_unknown_and_queue_full_passes: send_and_wait_unknown_and_queue_full
  by code_simp

lemma read_mask_defaults_empty_and_can_be_set_passes: read_mask_defaults_empty_and_can_be_set
  by code_simp

lemma inbound_visible_matches_payload_names_passes: inbound_visible_matches_payload_names
  by code_simp

text \<open>Pushing a run of messages through the sink is pushing them on the queue.\<close>

lemma recv_all_items:
  "hm_get (im_inner m) i = Some inst \<Longrightarrow> length (iq_items (inst_inbound inst)) \<le> n \<Longrightarrow>
   recv_all n i m = map seq (iq_items (inst_inbound inst))"
proof (induction n arbitrary: m inst)
  case (Suc n)
  show ?case
  proof (cases "iq_items (inst_inbound inst)")
    case Nil
    with Suc.prems show ?thesis by (simp add: try_recv_inbound_def iq_try_recv_def)
  next
    case (Cons msg rest)
    let ?inst = "inst\<lparr>inst_inbound := (inst_inbound inst)\<lparr>iq_items := rest\<rparr>\<rparr>"
    have "try_recv_inbound i m = (Some msg, m\<lparr>im_inner := hm_insert i ?inst (im_inner m)\<rparr>)"
      using Suc.prems(1) Cons by (simp add: try_recv_inbound_def iq_try_recv_def)
    with Suc.IH [of "m\<lparr>im_inner := hm_insert i ?inst (im_inner m)\<rparr>" ?inst] Suc.prems(2) Cons
    show ?thesis by simp
  qed
qed simp

lemma sink_pushes:
  "hm_get (im_inner m) i = Some inst \<Longrightarrow>
   \<exists>inst'. hm_get (im_inner (fold (inbound_sink_push i) msgs m)) i = Some inst' \<and>
     inst_inbound inst' = fold iq_push msgs (inst_inbound inst)"
proof (induction msgs arbitrary: m inst)
  case (Cons msg msgs)
  let ?inst = "inst\<lparr>inst_inbound := iq_push msg (inst_inbound inst)\<rparr>"
  from Cons.IH [of "inbound_sink_push i msg m" ?inst] Cons.prems show ?case
    by (simp add: inbound_sink_push_def)
qed simp

lemma recv_all_pushed:
  assumes "hm_get (im_inner m) i = Some inst" and "length (iq_items (fold iq_push msgs (inst_inbound inst))) \<le> n"
  shows "recv_all n i (fold (inbound_sink_push i) msgs m) = map seq (iq_items (fold iq_push msgs (inst_inbound inst)))"
  using sink_pushes [OF assms(1), of msgs] assms(2) by (auto simp: recv_all_items)

lemma inbound_never_drops_act_ers_or_acks_passes: inbound_never_drops_act_ers_or_acks
proof -
  let ?msgs = "[log_component_msg 1 ''MEM'' ''heap'', log_component_msg 2 ''SCT'' ''index'',
    log_component_msg 3 ''MEM'' ''heap2'', log_component_msg 4 ''SCT'' ''index2'',
    log_component_msg 5 ''ACT'' ''Entering activity: Home'', log_component_msg 6 ''ERS'' ''Rendered page'',
    \<lparr>seq = 7, corr = 0, payload = Some (InputAck default_ack)\<rparr>,
    \<lparr>seq = 8, corr = 0, payload = Some (UiResult default_ui_result)\<rparr>]"
  have pushed: "iq_items (fold iq_push ?msgs (iq_new 4)) =
      [log_component_msg 5 ''ACT'' ''Entering activity: Home'', log_component_msg 6 ''ERS'' ''Rendered page'',
       \<lparr>seq = 7, corr = 0, payload = Some (InputAck default_ack)\<rparr>,
       \<lparr>seq = 8, corr = 0, payload = Some (UiResult default_ui_result)\<rparr>]"
    by (simp add: iq_push_def iq_new_def eviction_index_def usize_max_def eviction_rank_def is_heartbeat_def
        is_never_drop_def vec_remove_def log_component_msg_def)
  obtain token m where m: "add_instance 1 ''q'' 4 empty_map = (token, m)" by fastforce
  then obtain inst where "hm_get (im_inner m) ''q'' = Some inst" and "inst_inbound inst = iq_new 4"
    by (auto simp: add_instance_def mpsc_channel_def imap_insert_def Let_def default_register_def)
  with recv_all_pushed [OF this(1), of ?msgs 5] have
    "recv_all 5 ''q'' (fold (inbound_sink_push ''q'') ?msgs m) = [5, 6, 7, 8]"
    unfolding \<open>inst_inbound inst = iq_new 4\<close> pushed by (simp add: log_component_msg_def del: fold.simps)
  then show ?thesis
    unfolding inbound_never_drops_act_ers_or_acks_def m Let_def prod.case .
qed

lemma push_inbound_drops_excluded_log_components_passes: push_inbound_drops_excluded_log_components
  by code_simp

lemma send_and_wait_for_ui_result_ignores_accepted_ack_passes: send_and_wait_for_ui_result_ignores_accepted_ack
  by code_simp

lemma send_and_wait_for_ui_result_fails_fast_on_rejected_ack_passes: send_and_wait_for_ui_result_fails_fast_on_rejected_ack
  by code_simp


subsection \<open>A test that cannot fail for the reason it names\<close>

text \<open>The test passes as well when the call waits for any reply, which an accepted acknowledgement
  would complete; with the acknowledgement pushed after the first poll it tells the two apart.\<close>

definition ui_result_test_polled :: "wait_kind \<Rightarrow> bool" where
  "ui_result_test_polled k \<longleftrightarrow>
     (let (_, m) = add_instance 4 ''a'' 4 empty_map;
          (c, m1) = next_corr m;
          ack = test_reply c (Some (InputAck (default_ack\<lparr>ack_accepted := True\<rparr>)));
          ui = test_reply c (Some (UiResult default_ui_result));
          (res, _) = send_and_wait_for tc_send (polled (\<lambda>m. push_inbound ''a'' ui (push_inbound ''a'' ack m)))
                       ''a'' (outbound_msg c) REPLY_TIMEOUT k m1 in
      (case res of
         Inr got \<Rightarrow> (case payload got of Some (UiResult _) \<Rightarrow> True | _ \<Rightarrow> False)
       | Inl _ \<Rightarrow> False))"

lemma ui_result_test_is_blind:
  "ui_result_test WaitUiResult" "ui_result_test WaitAny"
  "ui_result_test_polled WaitUiResult" "\<not> ui_result_test_polled WaitAny"
  by code_simp+

end
