(* ===== verification/Xtask.thy ===== *)
theory Xtask
  imports Proxy
begin

text \<open>
  \<open>cargo xtask start-csm-proxy\<close> (\<open>xtask/src/start.rs\<close>): find or build the proxy and the
  firmware and compose the command that is executed. The file system, the environment and the
  child processes are a parameter, \<open>build_ops\<close>, over an abstract state; a command is a record
  of what the source puts into \<open>std::process::Command\<close>. Log lines on stderr are left out.
\<close>

datatype mcp_mode = Http | Stdio

record start_csm_proxy_args =
  sta_mode :: mcp_mode
  sta_firmware :: "string option"
  sta_board :: string
  sta_grpc_prefix :: "string option"
  sta_listen :: string
  sta_mcp_http :: string
  sta_display :: "string option"
  sta_ld_library_path :: "string list"
  sta_build_firmware :: bool
  sta_extra :: "string list"

record start_plan =
  pl_proxy_bin :: string
  pl_listen :: string
  pl_mode :: mcp_mode
  pl_mcp_http :: string
  pl_simulator :: "string option"
  pl_grpc_prefix :: "string option"
  pl_display :: "string option"
  pl_ld_library_path :: "string list"
  pl_extra :: "string list"

record command =
  cmd_program :: string
  cmd_args :: "string list"
  cmd_dir :: "string option"
  cmd_env :: "(string \<times> string) list"

datatype command_status = StatusError string | StatusOk | StatusFailed string

record 'os build_ops =
  bo_is_file :: "string \<Rightarrow> 'os \<Rightarrow> bool"
  bo_is_dir :: "string \<Rightarrow> 'os \<Rightarrow> bool"
  bo_env :: "string \<Rightarrow> string option"
  bo_status :: "command \<Rightarrow> 'os \<Rightarrow> command_status \<times> 'os"
  bo_exec :: "command \<Rightarrow> 'os \<Rightarrow> string \<times> 'os"
  bo_windows :: bool
  bo_macos :: bool

definition program_path :: "'os build_ops \<Rightarrow> string \<Rightarrow> string \<Rightarrow> 'os \<Rightarrow> string" where
  "program_path ops firmware board os0 =
     (if bo_is_file ops firmware os0 then firmware
      else path_join (path_join (path_join (path_join firmware ''.pio'') ''build'') board) ''program'')"

definition join_colon :: "string list \<Rightarrow> string" where
  "join_colon parts = fold (\<lambda>(i, part) value. if 0 < i then value @ '':'' @ part else value @ part)
     (enumerate 0 parts) []"

definition prepend_ld_library_path :: "string list \<Rightarrow> string option \<Rightarrow> string" where
  "prepend_ld_library_path dirs current =
     (let parts = dirs @ (case non_empty current of Some old \<Rightarrow> [old] | None \<Rightarrow> [])
      in join_colon parts)"

definition proxy_bin :: "'os build_ops \<Rightarrow> string \<Rightarrow> string" where
  "proxy_bin ops root =
     (let target = (case bo_env ops ''CARGO_TARGET_DIR'' of Some t \<Rightarrow> t | None \<Rightarrow> path_join root ''target'');
          bin = path_join (path_join target ''debug'') ''crosspoint-simulator-mcp-proxy''
      in if bo_windows ops then bin @ ''.exe'' else bin)"

definition proxy_argv :: "start_plan \<Rightarrow> string list" where
  "proxy_argv plan =
     [pl_proxy_bin plan, ''--listen'', pl_listen plan] @
     (if pl_mode plan = Http then [''--mcp-http'', pl_mcp_http plan] else []) @
     (case pl_simulator plan of Some sim \<Rightarrow> [''--simulator'', sim] | None \<Rightarrow> []) @
     pl_extra plan"

definition run_status :: "'os build_ops \<Rightarrow> command \<Rightarrow> string \<Rightarrow> 'os \<Rightarrow> (string + unit) \<times> 'os" where
  "run_status ops cmd what os0 =
     (case bo_status ops cmd os0 of
        (StatusError err, os1) \<Rightarrow> (Inl (''failed to spawn '' @ what @ '': '' @ err), os1)
      | (StatusOk, os1) \<Rightarrow> (Inr (), os1)
      | (StatusFailed status, os1) \<Rightarrow> (Inl (what @ '' failed ('' @ status @ '')''), os1))"

definition build_proxy :: "'os build_ops \<Rightarrow> string \<Rightarrow> 'os \<Rightarrow> (string + string) \<times> 'os" where
  "build_proxy ops root os0 =
     res_bind
       (run_status ops \<lparr>cmd_program = ''cargo'', cmd_args = [''build'', ''-p'', ''csm-proxy''],
          cmd_dir = Some root, cmd_env = []\<rparr> ''cargo build -p csm-proxy'' os0)
       (\<lambda>_ os1.
          let bin = proxy_bin ops root
          in if \<not> bo_is_file ops bin os1 then (Inl (''proxy binary missing after build: '' @ bin), os1)
             else (Inr bin, os1))"

definition build_firmware ::
    "'os build_ops \<Rightarrow> string \<Rightarrow> string \<Rightarrow> string option \<Rightarrow> string list \<Rightarrow> 'os \<Rightarrow> (string + unit) \<times> 'os" where
  "build_firmware ops firmware board grpc_prefix ld_library_path os0 =
     (let pkg = (case grpc_prefix of
            Some pfx \<Rightarrow>
              (let pc = path_join (path_join pfx ''lib'') ''pkgconfig'';
                   old = default_str [] (bo_env ops ''PKG_CONFIG_PATH'');
                   merged = (if old = [] then pc else pc @ '':'' @ old)
               in [(''PKG_CONFIG_PATH'', merged)])
          | None \<Rightarrow> []);
          search = ld_library_path @
            (case grpc_prefix of Some pfx \<Rightarrow> [path_join pfx ''lib''] | None \<Rightarrow> []);
          ld = (if search \<noteq> []
                then [(''LD_LIBRARY_PATH'', prepend_ld_library_path search (bo_env ops ''LD_LIBRARY_PATH'')),
                      (''LIBRARY_PATH'', prepend_ld_library_path search (bo_env ops ''LIBRARY_PATH''))]
                else [])
      in run_status ops \<lparr>cmd_program = ''pio'', cmd_args = [''run'', ''-e'', board],
           cmd_dir = Some firmware, cmd_env = pkg @ ld\<rparr> ''pio run'' os0)"

definition resolve_simulator ::
    "'os build_ops \<Rightarrow> start_csm_proxy_args \<Rightarrow> string option \<Rightarrow> 'os \<Rightarrow> (string + string option) \<times> 'os" where
  "resolve_simulator ops a grpc_prefix os0 =
     (case sta_firmware a of
        None \<Rightarrow> (Inr None, os0)
      | Some firmware \<Rightarrow>
          if bo_is_file ops firmware os0 then (Inr (Some firmware), os0)
          else if \<not> bo_is_dir ops firmware os0 then (Inl (''firmware path not found: '' @ firmware), os0)
          else
            let program = program_path ops firmware (sta_board a) os0
            in res_bind
                 (if sta_build_firmware a \<or> \<not> bo_is_file ops program os0
                  then build_firmware ops firmware (sta_board a) grpc_prefix (sta_ld_library_path a) os0
                  else (Inr (), os0))
                 (\<lambda>_ os1.
                    if \<not> bo_is_file ops program os1
                    then (Inl (''firmware program missing: '' @ program @ '' (pio env '' @ sta_board a @ '')''), os1)
                    else (Inr (Some program), os1)))"

definition plan_start ::
    "'os build_ops \<Rightarrow> string \<Rightarrow> start_csm_proxy_args \<Rightarrow> 'os \<Rightarrow> (string + start_plan) \<times> 'os" where
  "plan_start ops root a os0 =
     res_bind (build_proxy ops root os0) (\<lambda>bin os1.
       res_bind (resolve_simulator ops a (sta_grpc_prefix a) os1) (\<lambda>simulator os2.
         (Inr \<lparr>pl_proxy_bin = bin, pl_listen = sta_listen a, pl_mode = sta_mode a,
               pl_mcp_http = sta_mcp_http a, pl_simulator = simulator,
               pl_grpc_prefix = sta_grpc_prefix a, pl_display = non_empty (sta_display a),
               pl_ld_library_path = sta_ld_library_path a, pl_extra = sta_extra a\<rparr>, os2)))"

definition proxy_env :: "'os build_ops \<Rightarrow> start_plan \<Rightarrow> (string \<times> string) list" where
  "proxy_env ops plan =
     (case pl_display plan of Some display \<Rightarrow> [(''DISPLAY'', display)] | None \<Rightarrow> []) @
     (if pl_ld_library_path plan \<noteq> [] then
        [(''LD_LIBRARY_PATH'',
          prepend_ld_library_path (pl_ld_library_path plan) (bo_env ops ''LD_LIBRARY_PATH''))] @
        (if bo_macos ops then
           [(''DYLD_LIBRARY_PATH'',
             prepend_ld_library_path (pl_ld_library_path plan) (bo_env ops ''DYLD_LIBRARY_PATH''))]
         else [])
      else [])"

text \<open>On Unix \<open>exec\<close> returns only when it failed.\<close>

definition exec_proxy :: "'os build_ops \<Rightarrow> start_plan \<Rightarrow> 'os \<Rightarrow> (string + unit) \<times> 'os" where
  "exec_proxy ops plan os0 =
     (let argv = proxy_argv plan;
          (err, os1) = bo_exec ops \<lparr>cmd_program = hd argv, cmd_args = tl argv, cmd_dir = None,
                                     cmd_env = proxy_env ops plan\<rparr> os0
      in (Inl (''exec proxy failed: '' @ err), os1))"

definition run_start :: "'os build_ops \<Rightarrow> string \<Rightarrow> start_csm_proxy_args \<Rightarrow> 'os \<Rightarrow> (string + unit) \<times> 'os" where
  "run_start ops root a os0 = res_bind (plan_start ops root a os0) (\<lambda>planned os1. exec_proxy ops planned os1)"

subsection \<open>Search paths\<close>

lemma join_colon_snoc:
  "join_colon (ps @ [p]) = (if ps = [] then p else join_colon ps @ '':'' @ p)"
  by (simp add: join_colon_def enumerate_append_eq)

lemma split_first_char:
  assumes "c \<notin> set a"
  shows "split_first [c] (a @ c # b) = Some (a, b)" and "split_first [c] a = None"
  using assms
proof (induction a)
  case Nil
  { case 1 show ?case by (subst split_first.simps) simp }
  { case 2 show ?case by (subst split_first.simps) simp }
next
  case (Cons x a)
  { case 1 with Cons.IH show ?case by (subst split_first.simps) auto }
  { case 2 with Cons.IH show ?case by (subst split_first.simps) auto }
qed

lemma str_split_char:
  assumes "c \<notin> set a"
  shows "str_split [c] (a @ c # b) = a # str_split [c] b" and "str_split [c] a = [a]"
  using split_first_char [OF assms] by (subst str_split.simps, simp)+

lemma join_colon_Cons:
  "join_colon (p # ps) = (if ps = [] then p else p @ '':'' @ join_colon ps)"
proof (induction ps rule: rev_induct)
  case Nil
  show ?case by (simp add: join_colon_def)
next
  case (snoc q qs)
  have "join_colon (p # qs @ [q]) = join_colon (p # qs) @ '':'' @ q"
    using join_colon_snoc [of "p # qs" q] by simp
  with snoc show ?case by (simp add: join_colon_snoc)
qed

lemma split_join_colon:
  assumes "\<And>p. p \<in> set ps \<Longrightarrow> CHR '':'' \<notin> set p" and "ps \<noteq> []"
  shows "str_split '':'' (join_colon (ps @ qs)) = ps @ (if qs = [] then [] else str_split '':'' (join_colon qs))"
  using assms
proof (induction ps)
  case (Cons p ps)
  then show ?case
    by (cases "ps = []"; cases "qs = []") (simp_all add: join_colon_Cons str_split_char)
qed simp

text \<open>A prepended search path reads back as the new directories in order followed by the old
  entries: splitting the value at its colons gives exactly the given directories and then the
  entries of the value that was set before, if any; nothing else changes the search order.\<close>

lemma search_path_roundtrip:
  assumes "dirs \<noteq> []" and "\<And>d. d \<in> set dirs \<Longrightarrow> CHR '':'' \<notin> set d"
  shows "str_split '':'' (prepend_ld_library_path dirs current) =
    dirs @ (case non_empty current of None \<Rightarrow> [] | Some old \<Rightarrow> str_split '':'' old)"
  using split_join_colon [OF assms(2,1), of "case non_empty current of Some old \<Rightarrow> [old] | None \<Rightarrow> []"]
  by (simp add: prepend_ld_library_path_def join_colon_def [of "[_]"] split: option.split)

lemma search_path_roundtrip_witness:
  "str_split '':'' (prepend_ld_library_path [''/opt/grpc/lib''] (Some ''/usr/lib:/lib'')) =
     [''/opt/grpc/lib'', ''/usr/lib'', ''/lib'']"
proof -
  have "str_split '':'' ''/usr/lib:/lib'' = [''/usr/lib'', ''/lib'']" by code_simp
  then show ?thesis
    using search_path_roundtrip [of "[''/opt/grpc/lib'']" "Some ''/usr/lib:/lib''"]
    by (simp add: non_empty_def)
qed


text \<open>A file system with one built proxy and one firmware directory.\<close>

definition built_ops :: "unit build_ops" where
  "built_ops =
     \<lparr>bo_is_file = (\<lambda>p _. p \<in> {''/w/target/debug/crosspoint-simulator-mcp-proxy'',
                               ''/fw/.pio/build/simulator/program''}),
      bo_is_dir = (\<lambda>p _. p = ''/fw''), bo_env = (\<lambda>_. None),
      bo_status = (\<lambda>_ u. (StatusOk, u)), bo_exec = (\<lambda>_ u. (''no'', u)),
      bo_windows = False, bo_macos = False\<rparr>"

definition fw_args :: start_csm_proxy_args where
  "fw_args =
     \<lparr>sta_mode = Http, sta_firmware = Some ''/fw'', sta_board = ''simulator'', sta_grpc_prefix = None,
      sta_listen = ''127.0.0.1:50051'', sta_mcp_http = ''127.0.0.1:8765'', sta_display = None,
      sta_ld_library_path = [], sta_build_firmware = True, sta_extra = []\<rparr>"


end
