(* ===== verification/Process_Tests.thy ===== *)
theory Process_Tests
  imports Proxy Xtask
begin

text \<open>
  The unit tests of \<open>spawn.rs\<close>, \<open>logging.rs\<close> and \<open>cli.rs\<close> (\<open>crates/csm-proxy/src\<close>) and of
  \<open>xtask/src/start.rs\<close>, run on the model: each test function is a boolean definition with the assertions of the source, and a lemma that it
  holds. The operating system they run on is \<open>test_os\<close>, a table of files and a list of live
  processes; \<open>sh -c "sleep 30"\<close> is a process that lives until it is killed. Parsing the command line
  is clap's, so the tests that begin with it begin here with the parsed arguments, and those of
  \<open>cli.rs\<close> that only parse are left out.
\<close>

subsection \<open>Fixtures\<close>

record test_os =
  to_files :: "(string \<times> string) list"
  to_live :: "nat list"
  to_next :: nat

definition test_os_new :: test_os where
  "test_os_new = \<lparr>to_files = [], to_live = [], to_next = 1\<rparr>"

definition test_ops :: "test_os os_ops" where
  "test_ops =
     \<lparr>os_create_dir_all = (\<lambda>_ w. (Inr (), w)),
      os_write = (\<lambda>path bytes w. (Inr (), w\<lparr>to_files := (path, bytes) # to_files w\<rparr>)),
      os_spawn = (\<lambda>_ _ w. (Inr (to_next w), w\<lparr>to_live := to_next w # to_live w, to_next := Suc (to_next w)\<rparr>)),
      os_child_pid = (\<lambda>c w. if List.member (to_live w) c then Some c else None),
      os_try_wait = (\<lambda>c w. (if List.member (to_live w) c then StillRunning else Exited, w)),
      os_kill_and_wait = (\<lambda>c w. w\<lparr>to_live := removeAll c (to_live w)\<rparr>),
      os_drop_child = (\<lambda>c w. w\<lparr>to_live := removeAll c (to_live w)\<rparr>),
      os_temp_dir = ''/tmp'', os_sample_epub = ''PK sample''\<rparr>"

definition sh_config :: "nat \<Rightarrow> spawn_config" where
  "sh_config wait = spawn_config_default\<lparr>cfg_binary := Some ''/bin/sh'',
     cfg_extra_args := [''-c'', ''sleep 30''], cfg_wait := wait\<rparr>"

definition alone :: "'os spawner \<Rightarrow> 'os spawner" where
  "alone s = s"

text \<open>\<open>Path::ends_with\<close> and \<open>Path::is_file\<close>.\<close>

definition path_ends_with :: "string \<Rightarrow> string \<Rightarrow> bool" where
  "path_ends_with path component \<longleftrightarrow> strip_prefix (rev (CHR ''/'' # component)) (rev path) \<noteq> None"

definition is_test_file :: "test_os \<Rightarrow> string \<Rightarrow> bool" where
  "is_test_file w path \<longleftrightarrow> map_of (to_files w) path \<noteq> None"

subsection \<open>Tests of spawn.rs\<close>

definition argv_puts_session_flags_after_operator_extra :: bool where
  "argv_puts_session_flags_after_operator_extra \<longleftrightarrow>
     spawn_argv ''/opt/sim'' ''127.0.0.1:50051'' ''e2e-a'' True [''--foo''] =
       [''/opt/sim'', ''--foo'', ''--sim-grpc'', ''--sim-grpc-addr'', ''127.0.0.1:50051'',
        ''--sim-instance-id'', ''e2e-a'', ''--sim-headless''] \<and>
     (let shown = spawn_argv ''/opt/sim'' ''10.0.0.1:9'' ''win'' False [] in
      \<not> list_ex (\<lambda>a. a = ''--sim-headless'') shown \<and> shown ! 3 = ''10.0.0.1:9'')"

definition default_cwd_sanitizes_unsafe_ids :: bool where
  "default_cwd_sanitizes_unsafe_ids \<longleftrightarrow>
     path_ends_with (default_cwd ''/tmp'' ''e2e-spawn'') ''e2e-spawn'' \<and>
     path_ends_with (default_cwd ''/tmp'' ''../x'') ''2e2e2f78''"

definition from_args_copies_operator_hints :: bool where
  "from_args_copies_operator_hints \<longleftrightarrow>
     (let cfg = from_args \<lparr>arg_listen = ''127.0.0.1:9'', arg_mcp_http = None, arg_default_instance = None,
            arg_simulator = Some ''/opt/sim'', arg_simulator_arg = [''--foo''], arg_auto_sleep = False,
            arg_observe_wait_ms = DEFAULT_OBSERVE_WAIT_MS\<rparr> in
      cfg_binary cfg = Some ''/opt/sim'' \<and> cfg_extra_args cfg = [''--foo''] \<and> cfg_listen cfg = ''127.0.0.1:9'' \<and>
      is_configured cfg \<and> \<not> cfg_auto_sleep_default cfg \<and> cfg_observe_wait_ms cfg = DEFAULT_OBSERVE_WAIT_MS \<and>
      \<not> is_configured spawn_config_default)"

definition start_rejects_unset_binary_and_bad_id :: bool where
  "start_rejects_unset_binary_and_bad_id \<longleftrightarrow>
     (let s = spawner_new test_os_new; cfg = spawn_config_default\<lparr>cfg_binary := Some ''/opt/sim''\<rparr> in
      fst (start test_ops spawn_config_default alone ''ok'' True None False False False s) = Inl NotConfigured \<and>
      fst (start test_ops cfg alone '''' True None False False False s) = Inl InvalidId \<and>
      fst (start test_ops cfg alone ''ok'' True None True False False s) = Inl AlreadyConnected)"

definition start_times_out_path_reaps_a_child_that_never_registers :: bool where
  "start_times_out_path_reaps_a_child_that_never_registers \<longleftrightarrow>
     (let (pid, s) = start test_ops (sh_config 50) alone ''sleepy'' True None False False False
                       (spawner_new test_os_new);
          (up, s1) = is_alive test_ops ''sleepy'' s;
          (again, s2) = start test_ops (sh_config 50) alone ''sleepy'' True None False False False s1;
          (still_up, _) = is_alive test_ops ''sleepy'' (reap test_ops ''sleepy'' s2) in
      (case pid of Inr p \<Rightarrow> 0 < p | Inl _ \<Rightarrow> False) \<and> up \<and> again = Inl AlreadySpawned \<and> \<not> still_up)"

definition seed_sample_book_writes_epub_under_fs_books :: bool where
  "seed_sample_book_writes_epub_under_fs_books \<longleftrightarrow>
     (let dir = ''/tmp/csm-sample-book-1''; (path, w) = seed_sample_book test_ops dir test_os_new in
      (case path of
         Inl _ \<Rightarrow> False
       | Inr p \<Rightarrow>
           path_ends_with p SAMPLE_BOOK_FILENAME \<and>
           strip_prefix (path_join (path_join dir ''fs_'') ''books'') p \<noteq> None \<and>
           (case map_of (to_files w) p of
              Some bytes \<Rightarrow> bytes = os_sample_epub test_ops \<and> strip_prefix ''PK'' bytes \<noteq> None
            | None \<Rightarrow> False)))"

definition seed_never_sleep_settings_writes_firmware_json :: bool where
  "seed_never_sleep_settings_writes_firmware_json \<longleftrightarrow>
     (let dir = ''/tmp/csm-never-sleep-1''; (path, w) = seed_never_sleep_settings test_ops dir test_os_new in
      path = Inr (path_join dir SETTINGS_RELATIVE) \<and>
      (case map_of (to_files w) (path_join dir SETTINGS_RELATIVE) of
         Some body \<Rightarrow>
           str_contains body ([CHR 0x22] @ ''sleepTimeoutMinutes'' @ [CHR 0x22, CHR '':''] @
             show_nat NEVER_SLEEP_TIMEOUT_MINUTES)
       | None \<Rightarrow> False))"

definition start_seeds_sample_book_only_when_requested :: bool where
  "start_seeds_sample_book_only_when_requested \<longleftrightarrow>
     (let with_book = ''/tmp/csm-seed-yes-1''; without = ''/tmp/csm-seed-no-1'';
          (a, s1) = start test_ops (sh_config SPAWN_WAIT) alone ''seed-yes'' True (Some with_book) False True False
                      (spawner_new test_os_new);
          (b, s2) = start test_ops (sh_config SPAWN_WAIT) alone ''seed-no'' True (Some without) False False True s1;
          book = (\<lambda>dir. path_join (path_join (path_join dir ''fs_'') ''books'') SAMPLE_BOOK_FILENAME);
          w = sp_os s2 in
      (case a of Inr _ \<Rightarrow> True | Inl _ \<Rightarrow> False) \<and> (case b of Inr _ \<Rightarrow> True | Inl _ \<Rightarrow> False) \<and>
      is_test_file w (book with_book) \<and> \<not> is_test_file w (book without) \<and>
      is_test_file w (path_join with_book SETTINGS_RELATIVE) \<and>
      \<not> is_test_file w (path_join without SETTINGS_RELATIVE))"

subsection \<open>Tests of start.rs\<close>

text \<open>A file system without the paths of the tests.\<close>

definition bare_ops :: "unit build_ops" where
  "bare_ops =
     \<lparr>bo_is_file = (\<lambda>_ _. False), bo_is_dir = (\<lambda>_ _. False), bo_env = (\<lambda>_. None),
      bo_status = (\<lambda>_ w. (StatusOk, w)), bo_exec = (\<lambda>_ w. ([], w)), bo_windows = False, bo_macos = False\<rparr>"

definition program_path_uses_pio_layout_for_a_directory :: bool where
  "program_path_uses_pio_layout_for_a_directory \<longleftrightarrow>
     program_path bare_ops ''/tmp/fw'' ''simulator'' () = ''/tmp/fw/.pio/build/simulator/program''"

definition proxy_argv_http_includes_simulator_and_extra :: bool where
  "proxy_argv_http_includes_simulator_and_extra \<longleftrightarrow>
     proxy_argv \<lparr>pl_proxy_bin = ''/opt/csm-proxy'', pl_listen = ''127.0.0.1:50051'', pl_mode = Http,
         pl_mcp_http = ''127.0.0.1:8765'', pl_simulator = Some ''/opt/program'', pl_grpc_prefix = None,
         pl_display = None, pl_ld_library_path = [], pl_extra = [''--auto-sleep'']\<rparr> =
       [''/opt/csm-proxy'', ''--listen'', ''127.0.0.1:50051'', ''--mcp-http'', ''127.0.0.1:8765'',
        ''--simulator'', ''/opt/program'', ''--auto-sleep'']"

definition proxy_argv_stdio_omits_mcp_http :: bool where
  "proxy_argv_stdio_omits_mcp_http \<longleftrightarrow>
     (let argv = proxy_argv \<lparr>pl_proxy_bin = ''csm'', pl_listen = ''127.0.0.1:9'', pl_mode = Stdio,
            pl_mcp_http = ''127.0.0.1:8765'', pl_simulator = None, pl_grpc_prefix = None,
            pl_display = None, pl_ld_library_path = [], pl_extra = []\<rparr> in
      argv = [''csm'', ''--listen'', ''127.0.0.1:9''] \<and> \<not> list_ex (\<lambda>a. a = ''--mcp-http'') argv)"

definition prepend_ld_library_path_keeps_existing_entries :: bool where
  "prepend_ld_library_path_keeps_existing_entries \<longleftrightarrow>
     prepend_ld_library_path [''/opt/grpc/lib''] None = ''/opt/grpc/lib'' \<and>
     prepend_ld_library_path [''/opt/grpc/lib''] (Some ''/usr/lib'') = ''/opt/grpc/lib:/usr/lib''"

subsection \<open>Tests of logging.rs and cli.rs\<close>

definition unset_or_empty_uses_default_crate_info :: bool where
  "unset_or_empty_uses_default_crate_info \<longleftrightarrow>
     (let unset = filter_from_env None; empty = filter_from_env (Some []) in
      str_contains unset ''csm_proxy'' \<and> str_contains unset ''info'' \<and> unset = empty \<and>
      DEFAULT_FILTER = ''csm_proxy=info'')"

definition rust_log_overrides_default :: bool where
  "rust_log_overrides_default \<longleftrightarrow>
     (let filt = filter_from_env (Some ''csm_proxy=debug,rmcp=warn'') in
      str_contains filt ''csm_proxy'' \<and> str_contains filt ''debug'' \<and>
      str_contains filt ''rmcp'' \<and> str_contains filt ''warn'')"

definition init_tracing_is_idempotent :: bool where
  "init_tracing_is_idempotent \<longleftrightarrow>
     (let once = init_tracing None None in once \<noteq> None \<and> init_tracing None once = once)"

text \<open>After parsing, the hint is applied to a new map; the value parser refuses bad ids.\<close>

definition applies_default_hint :: bool where
  "applies_default_hint \<longleftrightarrow>
     (let a = \<lparr>arg_listen = ''127.0.0.1:0'', arg_mcp_http = None, arg_default_instance = Some ''sim-a'',
            arg_simulator = Some ''/opt/sim'', arg_simulator_arg = [''--headless'', ''--foo''],
            arg_auto_sleep = True, arg_observe_wait_ms = 2500\<rparr> in
      default_instance (apply_instance_hints a (imap_new (\<lambda>_. ()))) = Some ''sim-a'')"

definition rejects_empty_or_overlong_default_instance :: bool where
  "rejects_empty_or_overlong_default_instance \<longleftrightarrow>
     (case parse_instance_id [] of Inl _ \<Rightarrow> True | Inr _ \<Rightarrow> False) \<and>
     (case parse_instance_id (replicate 65 CHR ''x'') of Inl _ \<Rightarrow> True | Inr _ \<Rightarrow> False)"

subsection \<open>The model passes them\<close>

lemma argv_puts_session_flags_after_operator_extra_passes: argv_puts_session_flags_after_operator_extra
  by code_simp

lemma default_cwd_sanitizes_unsafe_ids_passes: default_cwd_sanitizes_unsafe_ids
  by code_simp

lemma from_args_copies_operator_hints_passes: from_args_copies_operator_hints
  by code_simp

lemma start_rejects_unset_binary_and_bad_id_passes: start_rejects_unset_binary_and_bad_id
  by code_simp

lemma start_times_out_path_reaps_a_child_that_never_registers_passes: start_times_out_path_reaps_a_child_that_never_registers
  by code_simp

lemma seed_sample_book_writes_epub_under_fs_books_passes: seed_sample_book_writes_epub_under_fs_books
  by code_simp

lemma seed_never_sleep_settings_writes_firmware_json_passes: seed_never_sleep_settings_writes_firmware_json
  by code_simp

lemma start_seeds_sample_book_only_when_requested_passes: start_seeds_sample_book_only_when_requested
  by (simp add: start_seeds_sample_book_only_when_requested_def start_def start_effects_def start_reserve_def
      start_record_def child_alive_def seed_sample_book_def seed_never_sleep_settings_def spawner_new_def
      test_os_new_def test_ops_def sh_config_def spawn_config_default_def alone_def is_valid_instance_id_def
      INSTANCE_ID_MAX_LEN_def res_bind_def path_join_def is_test_file_def SAMPLE_BOOK_FILENAME_def
      SETTINGS_RELATIVE_def Let_def)

lemma program_path_uses_pio_layout_for_a_directory_passes: program_path_uses_pio_layout_for_a_directory
  by code_simp

lemma proxy_argv_http_includes_simulator_and_extra_passes: proxy_argv_http_includes_simulator_and_extra
  by code_simp

lemma proxy_argv_stdio_omits_mcp_http_passes: proxy_argv_stdio_omits_mcp_http
  by code_simp

lemma prepend_ld_library_path_keeps_existing_entries_passes: prepend_ld_library_path_keeps_existing_entries
  by code_simp

lemma unset_or_empty_uses_default_crate_info_passes: unset_or_empty_uses_default_crate_info
  by code_simp

lemma rust_log_overrides_default_passes: rust_log_overrides_default
  by code_simp

lemma init_tracing_is_idempotent_passes: init_tracing_is_idempotent
  by code_simp

lemma applies_default_hint_passes: applies_default_hint
  by code_simp

lemma rejects_empty_or_overlong_default_instance_passes: rejects_empty_or_overlong_default_instance
  by code_simp

end
