(* ===== verification/Tool_Tests.thy ===== *)
theory Tool_Tests
  imports Map_Tests Process_Tests
begin

text \<open>
  The unit tests of \<open>crates/csm-proxy/src/mcp.rs\<close>, run on the model. A test that spawns a call, reads
  the request off the session and answers it becomes a call under the schedule \<open>respond ok answers\<close>:
  while the call waits, the request is taken from the channel, checked with \<open>ok\<close> (a test that fails
  there never answers, and its result is then a timeout), and the answers are pushed under its
  correlation id. A test that sleeps and then acts becomes \<open>at_lock n act\<close>: the map does \<open>act\<close> before
  the call's \<open>n\<close>-th lock acquisition, the first one after the time slept.

  The generated JSON encoding of a message and the printer are parameters of the model. \<open>proto_json\<close>
  has the members the tests read; a test that parses the text of an answer becomes one whose printer
  prints whether the assertions on the parsed value hold.
\<close>

subsection \<open>Fixtures\<close>

definition tool_insert :: "nat \<Rightarrow> nat \<Rightarrow> string \<Rightarrow> test_map \<Rightarrow> u64 \<times> test_map" where
  "tool_insert n cap i m =
     (let (tx, m1) = mpsc_channel (tc_new n) m
      in imap_insert ((default_register i)\<lparr>reg_board_id := ''x4''\<rparr>) cap tx m1)"

definition one_sim :: test_map where
  "one_sim = snd (tool_insert 8 8 ''sim-a'' empty_map)"

text \<open>\<open>rx.try_recv()\<close> on the first session's channel.\<close>

definition rx_try_recv :: "test_map \<Rightarrow> server_to_sim option \<times> test_map" where
  "rx_try_recv m =
     (case tc_items (im_outq m 0) of
        [] \<Rightarrow> (None, m)
      | msg # rest \<Rightarrow> (Some msg, m\<lparr>im_outq := (im_outq m)(0 := (im_outq m 0)\<lparr>tc_items := rest\<rparr>)\<rparr>))"

definition respond :: "(server_to_sim \<Rightarrow> bool) \<Rightarrow> sim_payload option list \<Rightarrow> test_chan sched" where
  "respond ok answers =
     polled (\<lambda>m. case rx_try_recv m of
         (Some msg, m1) \<Rightarrow>
           if ok msg then fold (\<lambda>p. push_inbound ''sim-a'' (test_reply (req_corr msg) p)) answers m1 else m1
       | (None, m1) \<Rightarrow> m1)"

definition idle :: "test_chan sched" where
  "idle = polled (\<lambda>m. m)"

definition still :: "test_chan env" where
  "still n m = m"

definition at_lock :: "nat \<Rightarrow> (test_map \<Rightarrow> test_map) \<Rightarrow> test_chan env" where
  "at_lock n act k m = (if k = n then act m else m)"

text \<open>The reading of the clock before the polls, and at each poll.\<close>

definition poll_ms :: "nat \<Rightarrow> nat" where
  "poll_ms j = 25 * (j - 1)"

definition source_name :: "input_source \<Rightarrow> string" where
  "source_name s =
     (case s of SourceUnspecified \<Rightarrow> ''INPUT_SOURCE_UNSPECIFIED'' | Human \<Rightarrow> ''INPUT_SOURCE_HUMAN''
      | Remote \<Rightarrow> ''INPUT_SOURCE_REMOTE'' | Script \<Rightarrow> ''INPUT_SOURCE_SCRIPT'')"

definition proto_json :: "sim_to_server \<Rightarrow> json option" where
  "proto_json msg =
     Some (JObj (case payload msg of
         Some (Log l) \<Rightarrow> [(''log'', JObj [(''text'', JStr (log_text l))])]
       | Some (InputObserved ev) \<Rightarrow> [(''inputObserved'', JObj [(''source'', JStr (source_name (obs_source ev)))])]
       | _ \<Rightarrow> []))"

definition key_edge :: "u64 \<Rightarrow> input_source \<Rightarrow> string \<Rightarrow> bool \<Rightarrow> sim_to_server" where
  "key_edge n src name down =
     \<lparr>seq = n, corr = 0,
      payload = Some (InputObserved \<lparr>obs_source = src, obs_event = Some (KeyEdge name down)\<rparr>)\<rparr>"

definition wait_spec :: "nat option \<Rightarrow> string option \<Rightarrow> u64 option \<Rightarrow> observe_spec" where
  "wait_spec wait_ms until_log until_generation_gt =
     \<lparr>sp_wait_ms = wait_ms, sp_until_log = until_log, sp_until_generation_gt = until_generation_gt,
      sp_until_activity = None, sp_until_progress_page = None\<rparr>"

definition observe_once :: "string \<Rightarrow> test_map \<Rightarrow> json option \<times> test_map" where
  "observe_once i m =
     (case observe_json still proto_json (Some i) \<lparr>run_map = m, run_step = 0\<rparr> of
        Some (Inr body, r) \<Rightarrow> (Some body, run_map r)
      | Some (Inl _, r) \<Rightarrow> (None, run_map r)
      | None \<Rightarrow> (None, m))"

definition observe_waiting :: "test_chan env \<Rightarrow> observe_spec \<Rightarrow> test_map \<Rightarrow> json option \<times> test_map" where
  "observe_waiting env spec m =
     (case observe_wait_json env poll_ms proto_json 8000 (Some ''sim-a'') spec \<lparr>run_map = m, run_step = 0\<rparr> of
        Some (Inr body, r) \<Rightarrow> (Some body, run_map r)
      | Some (Inl _, r) \<Rightarrow> (None, run_map r)
      | None \<Rightarrow> (None, m))"

definition member_is :: "json option \<Rightarrow> string \<Rightarrow> json \<Rightarrow> bool" where
  "member_is body k v \<longleftrightarrow> Option.bind body (jget k) = Some v"

definition no_member :: "json option \<Rightarrow> string \<Rightarrow> bool" where
  "no_member body k \<longleftrightarrow> (case body of Some b \<Rightarrow> jget k b = None | None \<Rightarrow> False)"

definition events_of :: "json option \<Rightarrow> json list option" where
  "events_of body = Option.bind body (\<lambda>b. case jget ''events'' b of Some (JArr js) \<Rightarrow> Some js | _ \<Rightarrow> None)"

definition is_ok :: "'e + 'a \<Rightarrow> bool" where
  "is_ok r = (case r of Inr _ \<Rightarrow> True | Inl _ \<Rightarrow> False)"

definition ok_value :: "'e + 'a \<Rightarrow> 'a option" where
  "ok_value r = (case r of Inr v \<Rightarrow> Some v | Inl _ \<Rightarrow> None)"

definition null_json :: "'a \<Rightarrow> json" where
  "null_json _ = JNull"

subsection \<open>Listing and enqueueing\<close>

definition list_and_get_require_a_real_id :: bool where
  "list_and_get_require_a_real_id \<longleftrightarrow>
     (let get = get_instance_json null_json null_json;
          m = one_sim; m1 = set_default_instance (Some ''sim-a'') m in
      jget ''instances'' (list_instances_json null_json null_json empty_map) = Some (JArr []) \<and>
      \<not> is_ok (get None empty_map) \<and> \<not> is_ok (get (Some '''') empty_map) \<and> \<not> is_ok (get None m) \<and>
      member_is (ok_value (get (Some ''sim-a'') m)) ''instanceId'' (JStr ''sim-a'') \<and>
      member_is (ok_value (get None m1)) ''instanceId'' (JStr ''sim-a'') \<and> \<not> is_ok (get (Some ''missing'') m1))"

definition inject_is_readable_on_the_session_queue :: bool where
  "inject_is_readable_on_the_session_queue \<longleftrightarrow>
     (let (queued, m) = inject_touch_json tc_send idle (Some ''sim-a'') 3 10 20 False None None None one_sim;
          (msg, _) = rx_try_recv m in
      member_is (ok_value queued) ''queued'' (JBool True) \<and>
      (case msg of
         None \<Rightarrow> False
       | Some req \<Rightarrow>
           \<not> req_ack_requested req \<and> member_is (ok_value queued) ''corr'' (JNum (uint (req_corr req))) \<and>
           (case req_payload req of
              Some (InjectTouch touch) \<Rightarrow>
                touch_kind touch = 3 \<and> touch_x touch = 10 \<and> touch_y touch = 20 \<and> touch_space touch = Logical
            | _ \<Rightarrow> False)))"

definition enqueue_reports_unknown_and_queue_full :: bool where
  "enqueue_reports_unknown_and_queue_full \<longleftrightarrow>
     (let (_, m) = tool_insert 1 4 ''sim-a'' empty_map;
          (unknown, m1) = shutdown_instance_json tc_send idle (Some ''nope'') m;
          (sent, m2) = shutdown_instance_json tc_send idle (Some ''sim-a'') m1;
          (full, m3) = inject_key_json tc_send idle (Some ''sim-a'') ''ENTER'' 0 False None None m2;
          (full_wait, m4) = inject_key_json tc_send idle (Some ''sim-a'') ''ENTER'' 0 True None None m3;
          (nope, m5) = inject_touch_json tc_send idle (Some ''nope'') 3 0 0 True None None None m4;
          (missing, _) = request_snapshot_result tc_send idle (\<lambda>_. []) id (Some ''nope'')
            \<lparr>sr_region = False, sr_x = 0, sr_y = 0, sr_width = 0, sr_height = 0, sr_format = 0\<rparr> True m5 in
      \<not> is_ok unknown \<and> is_ok sent \<and> full = Inl ''outbound queue is full'' \<and>
      full_wait = Inl ''outbound queue is full'' \<and> nope = Inl ''unknown instance'' \<and>
      (case missing of ToolError _ \<Rightarrow> True | ToolSuccess _ \<Rightarrow> False))"

definition payload_kind :: "server_to_sim option \<Rightarrow> string" where
  "payload_kind msg =
     (case Option.bind msg req_payload of
        Some (InjectHome _) \<Rightarrow> ''home''
      | Some (InjectSwipe _) \<Rightarrow> ''swipe''
      | Some (SetInjectEnabled _) \<Rightarrow> ''inject''
      | Some (SnapshotRequest _) \<Rightarrow> ''snap''
      | Some (SetSessionView _) \<Rightarrow> ''view''
      | _ \<Rightarrow> ''other'')"

definition remaining_enqueues_and_snapshot_do_not_wait :: bool where
  "remaining_enqueues_and_snapshot_do_not_wait \<longleftrightarrow>
     (let sel = Some ''sim-a'';
          (home, m1) = inject_home_json tc_send idle sel 40 False None None one_sim;
          (swipe, m2) = inject_swipe_json tc_send idle sel 1 2 3 4 50 False None None None m1;
          (enabled, m3) = set_inject_enabled_json tc_send idle sel False m2;
          (snap, m4) = request_snapshot_result tc_send idle (\<lambda>_. []) id sel
            \<lparr>sr_region = True, sr_x = 0, sr_y = 0, sr_width = 8, sr_height = 8, sr_format = 0\<rparr> False m3;
          (view, m5) = set_session_view_json tc_send idle sel [''log'', ''input_observed''] [] m4;
          (a, m6) = rx_try_recv m5; (b, m7) = rx_try_recv m6; (c, m8) = rx_try_recv m7;
          (d, m9) = rx_try_recv m8; (e, _) = rx_try_recv m9 in
      is_ok home \<and> is_ok swipe \<and> is_ok enabled \<and> (case snap of ToolSuccess _ \<Rightarrow> True | ToolError _ \<Rightarrow> False) \<and>
      is_ok view \<and> map payload_kind [a, b, c, d, e] = [''home'', ''swipe'', ''inject'', ''snap'', ''view''])"

subsection \<open>Session views\<close>

definition wire_session_view_paths_keeps_heartbeat_on_a_non_empty_mask :: bool where
  "wire_session_view_paths_keeps_heartbeat_on_a_non_empty_mask \<longleftrightarrow>
     wire_session_view_paths [] = [] \<and> wire_session_view_paths [''log''] = [''log'', ''heartbeat''] \<and>
     wire_session_view_paths [''log'', ''heartbeat''] = [''log'', ''heartbeat'']"

definition view_paths :: "server_to_sim option \<Rightarrow> string list option" where
  "view_paths msg =
     (case Option.bind msg req_payload of Some (SetSessionView view) \<Rightarrow> Some (view_read_mask view) | _ \<Rightarrow> None)"

definition set_session_view_keeps_host_mask_and_unions_heartbeat_on_the_wire :: bool where
  "set_session_view_keeps_host_mask_and_unions_heartbeat_on_the_wire \<longleftrightarrow>
     (let (res, m) = set_session_view_json tc_send idle (Some ''sim-a'') [''log''] [] one_sim;
          (msg, _) = rx_try_recv m in
      is_ok res \<and> read_mask ''sim-a'' m = Some [''log''] \<and> view_paths msg = Some [''log'', ''heartbeat''])"

subsection \<open>Observing\<close>

definition observe_drains_human_and_remote_edges :: bool where
  "observe_drains_human_and_remote_edges \<longleftrightarrow>
     (let m = inbound_sink_push ''sim-a'' (key_edge 3 Remote ''BACK'' False)
                (inbound_sink_push ''sim-a'' (key_edge 2 Human ''ENTER'' True) one_sim);
          (observed, m1) = observe_once ''sim-a'' m; (again, _) = observe_once ''sim-a'' m1;
          source = (\<lambda>ev. Option.bind (jget ''inputObserved'' ev) (jget ''source'')) in
      (case events_of observed of
         Some events \<Rightarrow>
           map source events = [Some (JStr ''INPUT_SOURCE_HUMAN''), Some (JStr ''INPUT_SOURCE_REMOTE'')]
       | None \<Rightarrow> False) \<and>
      events_of again = Some [])"

definition observe_honors_session_view_mask :: bool where
  "observe_honors_session_view_mask \<longleftrightarrow>
     (let edge = \<lparr>seq = 3, corr = 0, payload = Some (InputObserved \<lparr>obs_source = Human, obs_event = None\<rparr>)\<rparr>;
          m = inbound_sink_push ''sim-a'' edge (inbound_sink_push ''sim-a'' (log_line_msg 2 ''keep'') one_sim);
          (res, m1) = set_session_view_json tc_send idle (Some ''sim-a'') [''log''] [] m;
          (observed, _) = observe_once ''sim-a'' m1 in
      is_ok res \<and>
      (case events_of observed of
         Some events \<Rightarrow> length events = 1 \<and> jget ''log'' (events ! 0) \<noteq> None
       | None \<Rightarrow> False))"

definition hit :: "json option \<Rightarrow> bool" where
  "hit body \<longleftrightarrow> member_is body ''matched'' (JBool True) \<and> member_is body ''timedOut'' (JBool False)"

definition observe_wait_generation_works_after_a_log_only_view :: bool where
  "observe_wait_generation_works_after_a_log_only_view \<longleftrightarrow>
     (let (token, m) = tool_insert 8 8 ''sim-a'' empty_map;
          (res, m1) = set_session_view_json tc_send idle (Some ''sim-a'') [''log''] [] m;
          (msg, m2) = rx_try_recv m1;
          m3 = set_heartbeat ''sim-a'' token (default_heartbeat\<lparr>hb_framebuffer_generation := 6\<rparr>) m2;
          (generation, _) = observe_waiting still (wait_spec (Some 50) None (Some 5)) m3 in
      is_ok res \<and> read_mask ''sim-a'' m1 = Some [''log''] \<and>
      (case view_paths msg of Some paths \<Rightarrow> list_ex (\<lambda>path. path = ''heartbeat'') paths | None \<Rightarrow> False) \<and>
      hit generation)"

definition observe_wait_matches_log_or_times_out :: bool where
  "observe_wait_matches_log_or_times_out \<longleftrightarrow>
     (let m = inbound_sink_push ''sim-a'' (log_line_msg 2 ''ACT Entering activity: Home'') one_sim;
          (found, m1) = observe_waiting still (wait_spec (Some 50) (Some ''Entering activity: Home'') None) m;
          (miss, _) = observe_waiting still (wait_spec (Some 40) (Some ''ERS Rendered page'') None) m1 in
      hit found \<and> map_option length (events_of found) = Some 1 \<and>
      member_is miss ''matched'' (JBool False) \<and> member_is miss ''timedOut'' (JBool True) \<and>
      events_of miss = Some [])"

definition observe_wait_matches_generation_and_late_log :: bool where
  "observe_wait_matches_generation_and_late_log \<longleftrightarrow>
     (let (token, m) = tool_insert 8 8 ''sim-a'' empty_map;
          m1 = set_heartbeat ''sim-a'' token (default_heartbeat\<lparr>hb_framebuffer_generation := 4\<rparr>) m;
          (generation, m2) = observe_waiting still (wait_spec (Some 50) None (Some 3)) m1;
          (late, _) = observe_waiting
            (at_lock 8 (inbound_sink_push ''sim-a'' (log_line_msg 9 ''ERS Rendered page in 12ms'')))
            (wait_spec (Some 400) (Some ''ERS Rendered page'') None) m2 in
      hit generation \<and> hit late)"

definition observe_wait_without_until_is_a_one_shot_drain :: bool where
  "observe_wait_without_until_is_a_one_shot_drain \<longleftrightarrow>
     (let (observed, m) = observe_waiting still (wait_spec None None None) one_sim;
          (waited, _) = observe_waiting still (wait_spec (Some 40) None None) m in
      no_member observed ''matched'' \<and> no_member observed ''timedOut'' \<and> events_of observed = Some [] \<and>
      no_member waited ''matched'' \<and> no_member waited ''timedOut'')"

definition observe_until_generation_gt_zero_waits_for_a_bump :: bool where
  "observe_until_generation_gt_zero_waits_for_a_bump \<longleftrightarrow>
     (let (token, m) = tool_insert 8 8 ''sim-a'' empty_map;
          home = default_heartbeat\<lparr>hb_activity := ''Home'', hb_reader_page := 2\<rparr>;
          m1 = set_heartbeat ''sim-a'' token (home\<lparr>hb_framebuffer_generation := 7\<rparr>) m;
          (body, _) = observe_waiting
            (at_lock 9 (set_heartbeat ''sim-a'' token (home\<lparr>hb_framebuffer_generation := 8\<rparr>)))
            (wait_spec (Some 400) None (Some 0)) m1 in
      member_is body ''matched'' (JBool True) \<and> member_is body ''generation'' (JNum 8) \<and>
      member_is body ''activity'' (JStr ''Home'') \<and> member_is body ''readerPage'' (JNum 2))"

definition observe_until_activity_and_progress_page :: bool where
  "observe_until_activity_and_progress_page \<longleftrightarrow>
     (let (token, m) = tool_insert 8 8 ''sim-a'' empty_map;
          m1 = set_heartbeat ''sim-a'' token
            (default_heartbeat\<lparr>hb_activity := ''EpubReader'', hb_reader_page := 4, hb_reader_spine := 1\<rparr>) m;
          spec = wait_spec (Some 50) None None;
          (activity, m2) = observe_waiting still (spec\<lparr>sp_until_activity := Some ''EpubReader''\<rparr>) m1;
          (page, _) = observe_waiting still (spec\<lparr>sp_until_progress_page := Some 4\<rparr>) m2 in
      member_is activity ''matched'' (JBool True) \<and> member_is activity ''activity'' (JStr ''EpubReader'') \<and>
      member_is page ''matched'' (JBool True) \<and> member_is page ''readerPage'' (JNum 4) \<and>
      member_is page ''readerSpine'' (JNum 1))"


subsection \<open>Waiting injects\<close>

definition any_request :: "server_to_sim \<Rightarrow> bool" where
  "any_request msg = True"

definition inject_wait_completes_on_input_ack :: bool where
  "inject_wait_completes_on_input_ack \<longleftrightarrow>
     (let ack = \<lparr>ack_accepted = True, ack_reason = []\<rparr>;
          (res, _) = inject_touch_json tc_send (respond req_ack_requested [Some (InputAck ack)])
            (Some ''sim-a'') 3 10 20 True (Some ''ack'') None None one_sim in
      member_is (ok_value res) ''accepted'' (JBool True) \<and> member_is (ok_value res) ''corr'' (JNum 1))"

definition inject_wait_rejects_with_reason :: bool where
  "inject_wait_rejects_with_reason \<longleftrightarrow>
     (let ack = \<lparr>ack_accepted = False, ack_reason = ''inject_disabled''\<rparr> in
      fst (inject_key_json tc_send (respond any_request [Some (InputAck ack)]) (Some ''sim-a'') ''ENTER'' 0 True
        (Some ''ack'') None one_sim) = Inl ''inject_disabled'')"

definition inject_wait_rejects_without_reason :: bool where
  "inject_wait_rejects_without_reason \<longleftrightarrow>
     fst (inject_home_json tc_send (respond any_request [Some (InputAck default_ack)]) (Some ''sim-a'') 0 True
       (Some ''ack'') None one_sim) = Inl ''inject rejected''"

definition inject_wait_rejects_unexpected_reply :: bool where
  "inject_wait_rejects_unexpected_reply \<longleftrightarrow>
     fst (inject_swipe_json tc_send (respond any_request [None]) (Some ''sim-a'') 1 2 3 4 10 True
       (Some ''ack'') None None one_sim) = Inl ''unexpected session reply''"

definition inject_wait_maps_disconnect :: bool where
  "inject_wait_maps_disconnect \<longleftrightarrow>
     (let (token, m) = tool_insert 4 4 ''sim-a'' empty_map in
      fst (inject_home_json tc_send (polled (remove_if ''sim-a'' token)) (Some ''sim-a'') 0 True
        (Some ''ack'') None m) = Inl ''instance disconnected'')"

definition logical_touch :: "server_to_sim \<Rightarrow> bool" where
  "logical_touch msg =
     (req_ack_requested msg \<and>
      (case req_payload msg of Some (InjectTouch touch) \<Rightarrow> touch_space touch = Logical | _ \<Rightarrow> False))"

definition inject_wait_paint_completes_on_ui_result :: bool where
  "inject_wait_paint_completes_on_ui_result \<longleftrightarrow>
     (let ack = \<lparr>ack_accepted = True, ack_reason = []\<rparr>;
          ui = \<lparr>ui_painted = True, ui_generation = 12, ui_activity = ''Home''\<rparr>;
          (res, _) = inject_touch_json tc_send (respond logical_touch [Some (InputAck ack), Some (UiResult ui)])
            (Some ''sim-a'') 3 240 350 True None None None one_sim;
          body = ok_value res in
      member_is body ''accepted'' (JBool True) \<and> member_is body ''painted'' (JBool True) \<and>
      member_is body ''generation'' (JNum 12) \<and> member_is body ''activity'' (JStr ''Home''))"

definition default_step :: inject_batch_step where
  "default_step =
     \<lparr>step_kind = [], step_x = 0, step_y = 0, step_touch_kind = None, step_name = None, step_hold_ms = 0,
      step_start_x = 0, step_start_y = 0, step_end_x = 0, step_end_y = 0, step_duration_ms = 0,
      step_wait = None, step_wait_mode = None, step_space = None, step_wait_ms = None\<rparr>"

definition inject_batch_stops_on_reject :: bool where
  "inject_batch_stops_on_reject \<longleftrightarrow>
     (let ack = \<lparr>ack_accepted = False, ack_reason = ''inject_disabled''\<rparr>;
          sts = [default_step\<lparr>step_kind := ''key'', step_name := Some ''ENTER''\<rparr>,
                   default_step\<lparr>step_kind := ''key'', step_name := Some ''BACK''\<rparr>];
          (res, m) = inject_batch_json tc_send (respond any_request [Some (InputAck ack)]) (Some ''sim-a'') True
            (Some ''ack'') None None sts one_sim;
          body = ok_value res in
      member_is body ''stopped'' (JBool True) \<and> member_is body ''failedIndex'' (JNum 0) \<and>
      member_is body ''error'' (JStr ''inject_disabled'') \<and> fst (rx_try_recv m) = None)"

subsection \<open>Snapshots\<close>

definition whole_screen :: snapshot_request where
  "whole_screen = \<lparr>sr_region = False, sr_x = 0, sr_y = 0, sr_width = 0, sr_height = 0, sr_format = 0\<rparr>"

text \<open>The printer, followed by the test's parser and its assertions on the body.\<close>

definition checked_text :: "json \<Rightarrow> string" where
  "checked_text body =
     (if member_is (Some body) ''width'' (JNum 2) \<and> member_is (Some body) ''height'' (JNum 3) \<and>
         member_is (Some body) ''generation'' (JNum 9)
      then ''as expected'' else ''unexpected'')"

definition test_base64 :: "string \<Rightarrow> string" where
  "test_base64 bytes = ''base64:'' @ bytes"

definition snapshot_with :: "(server_to_sim \<Rightarrow> bool) \<Rightarrow> sim_payload option \<Rightarrow> test_map \<Rightarrow> call_tool_result \<times> test_map" where
  "snapshot_with ok answer m =
     request_snapshot_result tc_send (respond ok [answer]) checked_text test_base64 (Some ''sim-a'') whole_screen True m"

definition snapshot_wait_returns_image_content :: bool where
  "snapshot_wait_returns_image_content \<longleftrightarrow>
     (let frame = default_frame\<lparr>sf_pixels := [CHR 0x89, CHR 0x50], sf_width := 2, sf_height := 3, sf_generation := 9\<rparr> in
      fst (snapshot_with (\<lambda>msg. \<not> req_ack_requested msg) (Some (Snapshot frame)) one_sim) =
        ToolSuccess [TextBlock ''as expected'', ImageBlock (test_base64 [CHR 0x89, CHR 0x50]) ''image/png''])"

definition snapshot_wait_returns_error_message :: bool where
  "snapshot_wait_returns_error_message \<longleftrightarrow>
     fst (snapshot_with any_request (Some (SnapshotError \<lparr>se_message = ''panel busy''\<rparr>)) one_sim) =
       ToolError [TextBlock ''panel busy'']"

definition snapshot_wait_defaults_empty_error_and_rejects_unexpected :: bool where
  "snapshot_wait_defaults_empty_error_and_rejects_unexpected \<longleftrightarrow>
     (let (first, m) = snapshot_with any_request (Some (SnapshotError \<lparr>se_message = []\<rparr>)) one_sim;
          (second, _) = snapshot_with any_request (Some (InputAck \<lparr>ack_accepted = True, ack_reason = []\<rparr>)) m in
      first = ToolError [TextBlock ''snapshot failed''] \<and>
      second = ToolError [TextBlock ''timed out waiting for session reply''])"

subsection \<open>Capabilities and starting\<close>

definition caps_member :: "json \<Rightarrow> string \<Rightarrow> string \<Rightarrow> json \<Rightarrow> bool" where
  "caps_member caps part k v \<longleftrightarrow> jindex k (jindex part caps) = v"

definition capabilities_describe_the_surface :: bool where
  "capabilities_describe_the_surface \<longleftrightarrow>
     (let caps = capabilities_json False;
          live = capabilities_document (spawn_config_default\<lparr>cfg_auto_sleep_default := True, cfg_observe_wait_ms := 1500\<rparr>) in
      caps_member caps ''spawn'' ''configured'' (JBool False) \<and> caps_member caps ''spawn'' ''firmwareBuild'' (JBool False) \<and>
      caps_member caps ''spawn'' ''clientPassesBinary'' (JBool False) \<and>
      caps_member caps ''spawn'' ''sampleBookDefault'' (JBool True) \<and>
      caps_member caps ''spawn'' ''autoSleepDefault'' (JBool False) \<and>
      jindex ''neverMinutes'' (jindex ''autoSleep'' (jindex ''spawn'' caps)) = JNum 31 \<and>
      caps_member caps ''observe'' ''waitMsDefault'' (JNum 8000) \<and>
      caps_member caps ''observe'' ''untilLogParam'' (JStr ''until_log'') \<and>
      caps_member caps ''observe'' ''untilActivityParam'' (JStr ''until_activity'') \<and>
      caps_member caps ''observe'' ''untilProgressPageParam'' (JStr ''until_progress_page'') \<and>
      caps_member caps ''observe'' ''untilGenerationGtZeroMeansCurrent'' (JBool True) \<and>
      caps_member caps ''observe'' ''matchedOnlyWithUntil'' (JBool True) \<and>
      caps_member caps ''observe'' ''heartbeatAlwaysOnWire'' (JBool True) \<and>
      caps_member caps ''inject'' ''waitModeDefault'' (JStr ''paint'') \<and>
      caps_member caps ''inject'' ''coordinateSpaceDefault'' (JStr ''logical'') \<and>
      caps_member caps ''inject'' ''batchTool'' (JStr ''inject_batch'') \<and>
      caps_member caps ''sessionView'' ''excludeLogComponentsParam'' (JStr ''exclude_log_components'') \<and>
      caps_member caps ''firmware'' ''boardIds'' (jstrs [''x4'', ''x3'', ''x4_pro'', ''sticky'', ''paper_mono'']) \<and>
      jindex ''filename'' (jindex ''sampleBook'' (jindex ''spawn'' caps)) = JStr ''CrossPoint-Reader.epub'' \<and>
      caps_member live ''spawn'' ''autoSleepDefault'' (JBool True) \<and>
      caps_member live ''observe'' ''waitMsDefault'' (JNum 1500) \<and>
      (case jindex ''tools'' caps of
         JArr tools \<Rightarrow> length tools = length TOOL_NAMES \<and>
           list_all (\<lambda>name. list_ex (\<lambda>v. v = JStr name) tools) TOOL_NAMES
       | _ \<Rightarrow> False) \<and>
      caps_member (capabilities_json True) ''spawn'' ''configured'' (JBool True))"

definition start_json :: "spawn_config \<Rightarrow> string \<Rightarrow> bool \<Rightarrow> test_map \<Rightarrow> (string + json) option" where
  "start_json cfg i sample_book m =
     map_option fst (start_instance_json test_ops cfg null_json null_json still (\<lambda>_. alone) poll_ms i True None
       sample_book False \<lparr>run_map = m, run_step = 0\<rparr> (spawner_new test_os_new))"

definition start_instance_errors_when_spawn_is_unset_or_already_connected :: bool where
  "start_instance_errors_when_spawn_is_unset_or_already_connected \<longleftrightarrow>
     (let cfg = spawn_config_default\<lparr>cfg_binary := Some ''/bin/sh''\<rparr> in
      start_json spawn_config_default ''e2e-a'' True empty_map =
        Some (Inl ''spawn is not configured; set --simulator / CSM_SIMULATOR'') \<and>
      start_json cfg ''sim-a'' True one_sim = Some (Inl ''instance is already connected'') \<and>
      start_json cfg '''' True one_sim = Some (Inl ''instance_id is required (1-64 bytes)''))"

definition start_instance_times_out_without_register :: bool where
  "start_instance_times_out_without_register \<longleftrightarrow>
     start_json (sh_config 250) ''no-reg'' False empty_map = Some (Inl ''timed out waiting for register'')"

subsection \<open>The model passes them\<close>


lemma list_and_get_require_a_real_id_passes: list_and_get_require_a_real_id
  by code_simp

lemma inject_is_readable_on_the_session_queue_passes: inject_is_readable_on_the_session_queue
  by code_simp

lemma enqueue_reports_unknown_and_queue_full_passes: enqueue_reports_unknown_and_queue_full
  by code_simp

lemma remaining_enqueues_and_snapshot_do_not_wait_passes: remaining_enqueues_and_snapshot_do_not_wait
  by code_simp

lemma wire_session_view_paths_keeps_heartbeat_on_a_non_empty_mask_passes: wire_session_view_paths_keeps_heartbeat_on_a_non_empty_mask
  by code_simp

lemma set_session_view_keeps_host_mask_and_unions_heartbeat_on_the_wire_passes: set_session_view_keeps_host_mask_and_unions_heartbeat_on_the_wire
  by code_simp

lemma observe_drains_human_and_remote_edges_passes: observe_drains_human_and_remote_edges
  by code_simp

lemma observe_honors_session_view_mask_passes: observe_honors_session_view_mask
  by code_simp

lemma observe_wait_generation_works_after_a_log_only_view_passes: observe_wait_generation_works_after_a_log_only_view
  by code_simp

lemma observe_wait_matches_log_or_times_out_passes: observe_wait_matches_log_or_times_out
  by code_simp

lemma observe_wait_matches_generation_and_late_log_passes: observe_wait_matches_generation_and_late_log
  by code_simp

lemma observe_wait_without_until_is_a_one_shot_drain_passes: observe_wait_without_until_is_a_one_shot_drain
  by code_simp

lemma observe_until_generation_gt_zero_waits_for_a_bump_passes: observe_until_generation_gt_zero_waits_for_a_bump
  by code_simp

lemma observe_until_activity_and_progress_page_passes: observe_until_activity_and_progress_page
  by code_simp

lemma inject_wait_completes_on_input_ack_passes: inject_wait_completes_on_input_ack
  by code_simp

lemma inject_wait_rejects_with_reason_passes: inject_wait_rejects_with_reason
  by code_simp

lemma inject_wait_rejects_without_reason_passes: inject_wait_rejects_without_reason
  by code_simp

lemma inject_wait_rejects_unexpected_reply_passes: inject_wait_rejects_unexpected_reply
  by code_simp

lemma inject_wait_maps_disconnect_passes: inject_wait_maps_disconnect
  by code_simp

lemma inject_wait_paint_completes_on_ui_result_passes: inject_wait_paint_completes_on_ui_result
  by code_simp

lemma inject_batch_stops_on_reject_passes: inject_batch_stops_on_reject
  by code_simp

lemma snapshot_wait_returns_image_content_passes: snapshot_wait_returns_image_content
  by code_simp

lemma snapshot_wait_returns_error_message_passes: snapshot_wait_returns_error_message
  by code_simp

lemma snapshot_wait_defaults_empty_error_and_rejects_unexpected_passes: snapshot_wait_defaults_empty_error_and_rejects_unexpected
  by code_simp

lemma capabilities_describe_the_surface_passes: capabilities_describe_the_surface
  by code_simp

lemma start_instance_errors_when_spawn_is_unset_or_already_connected_passes: start_instance_errors_when_spawn_is_unset_or_already_connected
  by code_simp

lemma start_instance_times_out_without_register_passes: start_instance_times_out_without_register
  by code_simp

end
