(* ===== verification/Lifecycle.thy ===== *)
theory Lifecycle
  imports Proxy
begin

text \<open>
  How the process ends and what becomes of the simulators it started: \<open>serve_mcp_stdio\<close> and
  \<open>serve_mcp_http\<close> (\<open>mcp.rs\<close>), the \<open>select\<close> of \<open>run\<close> (\<open>lib.rs\<close>) and \<open>main\<close>
  (\<open>main.rs\<close>).

  A child process belongs to whoever holds its handle: the supervisor's table, or a task between
  spawning it and recording it. \<open>spawn_step\<close> is one step of any task on the supervisor, over the
  state of the supervisor and the handles in flight, and every tool call is a sequence of them.
  What a server came to (a transport error, the client hanging up) is an argument.
\<close>

subsection \<open>The end of the process\<close>

text \<open>\<open>served\<close> is \<open>Inl\<close> when the transport could not be set up (the \<open>?\<close> of the first statement),
  and otherwise what serving it came to.\<close>

definition serve_mcp_stdio ::
    "'os os_ops \<Rightarrow> ('os spawner \<Rightarrow> 'os spawner) \<Rightarrow> string + (string + unit) \<Rightarrow> 'os spawner \<Rightarrow>
     (string + unit) \<times> 'os spawner" where
  "serve_mcp_stdio ops g served s =
     (case served of
        Inl e \<Rightarrow> (Inl e, s)
      | Inr result \<Rightarrow> (result, reap_all ops g s))"

text \<open>\<open>serve_mcp_http\<close> binds its address and hands the listener on; a failed bind, and a listener
  without a local address, are both \<open>Inl\<close>.\<close>

definition serve_mcp_http ::
    "'os os_ops \<Rightarrow> ('os spawner \<Rightarrow> 'os spawner) \<Rightarrow> string + (string + unit) \<Rightarrow> 'os spawner \<Rightarrow>
     (string + unit) \<times> 'os spawner" where
  "serve_mcp_http ops g served s =
     (case served of
        Inl e \<Rightarrow> (Inl e, s)
      | Inr result \<Rightarrow> (result, reap_all ops g s))"

text \<open>Which of the two futures of the \<open>select\<close> ended first, and how; the other is dropped.\<close>

datatype run_ending =
    SessionListenerEnded "string + unit"
  | McpServerEnded "string + (string + unit)"

definition run_select ::
    "'os os_ops \<Rightarrow> ('os spawner \<Rightarrow> 'os spawner) \<Rightarrow> args \<Rightarrow> run_ending \<Rightarrow> 'os spawner \<Rightarrow>
     (string + unit) \<times> 'os spawner" where
  "run_select ops g a ending s =
     (case arg_mcp_http a of
        Some mcp_addr \<Rightarrow>
          (case ending of
             SessionListenerEnded result \<Rightarrow> (result, s)
           | McpServerEnded served \<Rightarrow> serve_mcp_http ops g served s)
      | None \<Rightarrow>
          (case ending of
             SessionListenerEnded result \<Rightarrow> (result, s)
           | McpServerEnded served \<Rightarrow> serve_mcp_stdio ops g served s))"

text \<open>Dropping the supervisor drops the handles of its table.\<close>

definition supervisor_drop :: "'os os_ops \<Rightarrow> 'os spawner \<Rightarrow> 'os spawner" where
  "supervisor_drop ops s =
     s\<lparr>sp_children := [], sp_os := fold (os_drop_child ops) (map snd (sp_children s)) (sp_os s)\<rparr>"

definition exit_code :: "string + unit \<Rightarrow> nat" where
  "exit_code result = (case result of Inr _ \<Rightarrow> 0 | Inl _ \<Rightarrow> 1)"

definition proxy_main ::
    "'os os_ops \<Rightarrow> ('os spawner \<Rightarrow> 'os spawner) \<Rightarrow> args \<Rightarrow> run_ending \<Rightarrow> 'os spawner \<Rightarrow>
     nat \<times> 'os spawner" where
  "proxy_main ops g a ending s =
     (case run_select ops g a ending s of
        (result, s') \<Rightarrow> (exit_code result, supervisor_drop ops s'))"

subsection \<open>Steps of the supervisor\<close>

text \<open>The documented behaviour of processes the code relies on: only spawning adds a live child, and
  it is the one returned; a child that was killed, or whose handle was dropped, is not alive.\<close>

definition os_lives :: "'os os_ops \<Rightarrow> ('os \<Rightarrow> nat set) \<Rightarrow> bool" where
  "os_lives ops live \<longleftrightarrow>
     (\<forall>p o1. live (snd (os_create_dir_all ops p o1)) \<subseteq> live o1) \<and>
     (\<forall>p d o1. live (snd (os_write ops p d o1)) \<subseteq> live o1) \<and>
     (\<forall>argv cwd o1. case os_spawn ops argv cwd o1 of
        (Inl _, o2) \<Rightarrow> live o2 \<subseteq> live o1 | (Inr c, o2) \<Rightarrow> live o2 \<subseteq> insert c (live o1)) \<and>
     (\<forall>c o1. live (snd (os_try_wait ops c o1)) \<subseteq> live o1) \<and>
     (\<forall>c o1. live (os_kill_and_wait ops c o1) \<subseteq> live o1 - {c}) \<and>
     (\<forall>c o1. live (os_drop_child ops c o1) \<subseteq> live o1 - {c})"

text \<open>One step of any task: a block under the supervisor's lock, a call to the OS between two
  blocks, a task cancelled while it holds a handle, or a child ending by itself.\<close>

inductive spawn_step ::
    "'os os_ops \<Rightarrow> ('os \<Rightarrow> nat set) \<Rightarrow> nat multiset \<times> 'os spawner \<Rightarrow> nat multiset \<times> 'os spawner \<Rightarrow> bool"
  for ops live where
  ss_poll: "spawn_step ops live (X, s) (X, snd (child_alive ops i s))"
| ss_reserve: "spawn_step ops live (X, s) (X, snd (start_reserve ops i s))"
| ss_clear: "spawn_step ops live (X, s) (X, clear_starting i s)"
| ss_create_dir: "spawn_step ops live (X, s) (X, s\<lparr>sp_os := snd (os_create_dir_all ops p (sp_os s))\<rparr>)"
| ss_write: "spawn_step ops live (X, s) (X, s\<lparr>sp_os := snd (os_write ops p d (sp_os s))\<rparr>)"
| ss_spawned: "os_spawn ops argv cwd (sp_os s) = (Inr c, o2) \<Longrightarrow>
     spawn_step ops live (X, s) (add_mset c X, s\<lparr>sp_os := o2\<rparr>)"
| ss_not_spawned: "os_spawn ops argv cwd (sp_os s) = (Inl e, o2) \<Longrightarrow>
     spawn_step ops live (X, s) (X, s\<lparr>sp_os := o2\<rparr>)"
| ss_record: "spawn_step ops live (add_mset c X, s) (X, start_record ops i c s)"
| ss_cancel: "spawn_step ops live (add_mset c X, s) (X, s\<lparr>sp_os := os_drop_child ops c (sp_os s)\<rparr>)"
| ss_reap: "spawn_step ops live (X, s) (X, reap ops i s)"
| ss_exit: "live o2 \<subseteq> live (sp_os s) \<Longrightarrow> spawn_step ops live (X, s) (X, s\<lparr>sp_os := o2\<rparr>)"

abbreviation spawn_steps ::
    "'os os_ops \<Rightarrow> ('os \<Rightarrow> nat set) \<Rightarrow> nat multiset \<times> 'os spawner \<Rightarrow> nat multiset \<times> 'os spawner \<Rightarrow> bool" where
  "spawn_steps ops live \<equiv> rtranclp (spawn_step ops live)"

text \<open>What the other tasks do between two steps of one task: they leave its own handles alone, and
  end with the handles they began with.\<close>

definition spawn_env_ok :: "'os os_ops \<Rightarrow> ('os \<Rightarrow> nat set) \<Rightarrow> ('os spawner \<Rightarrow> 'os spawner) \<Rightarrow> bool" where
  "spawn_env_ok ops live g \<longleftrightarrow> (\<forall>X s. spawn_steps ops live (X, s) (X, g s))"

subsection \<open>Every live child has an owner\<close>

definition recorded :: "'os spawner \<Rightarrow> nat set" where
  "recorded s = {c. \<exists>i. hm_get (sp_children s) i = Some c}"

definition owned :: "('os \<Rightarrow> nat set) \<Rightarrow> nat multiset \<times> 'os spawner \<Rightarrow> bool" where
  "owned live = (\<lambda>(X, s). live (sp_os s) \<subseteq> set_mset X \<union> recorded s)"

lemma os_livesD:
  assumes "os_lives ops live"
  shows "live (snd (os_create_dir_all ops p o1)) \<subseteq> live o1"
    and "live (snd (os_write ops p d o1)) \<subseteq> live o1"
    and "os_spawn ops argv cwd o1 = (Inl e, o2) \<Longrightarrow> live o2 \<subseteq> live o1"
    and "os_spawn ops argv cwd o1 = (Inr c, o2) \<Longrightarrow> live o2 \<subseteq> insert c (live o1)"
    and "os_try_wait ops c o1 = (w, o2) \<Longrightarrow> live o2 \<subseteq> live o1"
    and "live (os_kill_and_wait ops c o1) \<subseteq> live o1 - {c}"
    and "live (os_drop_child ops c o1) \<subseteq> live o1 - {c}"
  using assms unfolding os_lives_def by (auto split: prod.splits sum.splits) (metis snd_conv subsetD)+

text \<open>Forgetting a child is harmless once it is not alive; so is anything that keeps the table and
  starts nothing.\<close>

lemma owned_mono:
  assumes "owned live (X, s)" and "live (sp_os s') \<subseteq> live (sp_os s)"
    and "hm_get (sp_children s') = hm_get (sp_children s)"
  shows "owned live (X, s')"
  using assms by (auto simp: owned_def recorded_def)

lemma owned_os: "owned live (X, s) \<Longrightarrow> live o2 \<subseteq> live (sp_os s) \<Longrightarrow> owned live (X, s\<lparr>sp_os := o2\<rparr>)"
  by (rule owned_mono) simp_all

lemma owned_forget:
  assumes "owned live (X, s)"
    and "live (sp_os s') \<subseteq> live (sp_os s) - set_option (hm_get (sp_children s) i)"
    and "hm_get (sp_children s') = (hm_get (sp_children s))(i := None)"
  shows "owned live (X, s')"
proof -
  have "recorded s \<subseteq> set_option (hm_get (sp_children s) i) \<union> recorded s'"
    by (auto simp: recorded_def assms(3))
  with assms(1,2) show ?thesis by (auto simp: owned_def)
qed

lemma owned_replace:
  assumes "owned live (add_mset c X, s)"
    and "live (sp_os s') \<subseteq> live (sp_os s) - set_option (hm_get (sp_children s) i)"
    and "hm_get (sp_children s') = (hm_get (sp_children s))(i \<mapsto> c)"
  shows "owned live (X, s')"
proof -
  have "recorded s \<subseteq> set_option (hm_get (sp_children s) i) \<union> recorded s'" and "c \<in> recorded s'"
    by (auto simp: recorded_def assms(3))
  with assms(1,2) show ?thesis by (auto simp: owned_def)
qed

lemma owned_child_alive:
  assumes "os_lives ops live" and "owned live (X, s)"
  shows "owned live (X, snd (child_alive ops i s))"
proof (cases "hm_get (sp_children s) i")
  case (Some c)
  obtain w o2 where w: "os_try_wait ops c (sp_os s) = (w, o2)" by fastforce
  note less = os_livesD(5) [OF assms(1) w] os_livesD(7) [OF assms(1), of c o2]
  show ?thesis
  proof (cases "w = StillRunning")
    case True
    with Some w less show ?thesis by (intro owned_mono [OF assms(2)]) (simp_all add: child_alive_def)
  next
    case False
    with Some w less show ?thesis
      by (intro owned_forget [OF assms(2), of _ i])
        (auto simp: child_alive_def fun_eq_iff split: try_wait_result.split)
  qed
qed (simp add: child_alive_def assms(2))

lemma owned_record:
  assumes "os_lives ops live" and "owned live (add_mset c X, s)"
  shows "owned live (X, start_record ops i c s)"
  using os_livesD(7) [OF assms(1)]
  by (intro owned_replace [OF assms(2), of _ i])
    (auto simp: start_record_def fun_eq_iff split: option.split)

lemma owned_reap:
  assumes "os_lives ops live" and "owned live (X, s)"
  shows "owned live (X, reap ops i s)"
  using os_livesD(6) [OF assms(1)]
  by (intro owned_forget [OF assms(2), of _ i])
    (auto simp: reap_facts fun_eq_iff split: option.split)

lemma owned_spawn_step:
  assumes "spawn_step ops live p q" and "os_lives ops live" and "owned live p"
  shows "owned live q"
  using assms
proof (induction rule: spawn_step.induct)
  case (ss_reserve X s i)
  obtain b s1 where ca: "child_alive ops i s = (b, s1)" by fastforce
  with owned_child_alive [OF ss_reserve, of i] have "owned live (X, s1)" by simp
  then have "owned live (X, s1\<lparr>sp_starting := insert i (sp_starting s1)\<rparr>)"
    by (rule owned_mono) simp_all
  with \<open>owned live (X, s1)\<close> ss_reserve(2) ca show ?case by (cases b) (simp_all add: start_reserve_def)
next
  case (ss_spawned argv cwd s c o2 X)
  from os_livesD(4) [OF ss_spawned(2,1)] ss_spawned(3) show ?case
    by (auto simp: owned_def recorded_def)
next
  case (ss_cancel c X s)
  from os_livesD(7) [OF ss_cancel(1), of c "sp_os s"] ss_cancel(2) show ?case
    by (auto simp: owned_def recorded_def)
next
  case (ss_clear X s i)
  then show ?case by (auto simp: clear_starting_def intro: owned_mono)
qed (auto intro: owned_child_alive owned_record owned_reap owned_os dest: os_livesD)

lemma owned_spawn_steps:
  "spawn_steps ops live p q \<Longrightarrow> os_lives ops live \<Longrightarrow> owned live p \<Longrightarrow> owned live q"
  by (induction rule: rtranclp_induct) (auto intro: owned_spawn_step)

subsection \<open>The end leaves no child\<close>

lemma live_drop_list:
  assumes "os_lives ops live"
  shows "live (fold (os_drop_child ops) cs o1) \<subseteq> live o1 - set cs"
proof (induction cs arbitrary: o1)
  case (Cons c cs)
  from Cons.IH [of "os_drop_child ops c o1"] os_livesD(7) [OF assms, of c o1] show ?case by auto
qed simp

lemma supervisor_drop_live:
  assumes "os_lives ops live" and "owned live ({#}, s)"
  shows "live (sp_os (supervisor_drop ops s)) = {}"
proof -
  have "recorded s \<subseteq> set (map snd (sp_children s))"
    by (force simp: recorded_def dest: map_of_SomeD)
  with assms(2) live_drop_list [OF assms(1)] show ?thesis
    by (fastforce simp: supervisor_drop_def owned_def)
qed

lemma spawn_envD: "spawn_env_ok ops live g \<Longrightarrow> spawn_steps ops live (X, s) (X, g s)"
  by (simp add: spawn_env_ok_def)

lemma reap_all_steps:
  assumes "spawn_env_ok ops live g"
  shows "spawn_steps ops live (X, s) (X, reap_all ops g s)"
proof -
  have "spawn_steps ops live (X, s) (X, fold (\<lambda>i s'. reap ops i (g s')) ids s)" for ids
  proof (induction ids arbitrary: s)
    case (Cons i ids)
    have "spawn_steps ops live (X, s) (X, reap ops i (g s))"
      using spawn_envD [OF assms] ss_reap by (rule rtranclp.rtrancl_into_rtrancl)
    with Cons.IH show ?case by (simp add: rtranclp_trans)
  qed simp
  then show ?thesis by (simp add: reap_all_def)
qed

lemma run_select_steps:
  assumes "spawn_env_ok ops live g"
  shows "spawn_steps ops live (X, s) (X, snd (run_select ops g a ending s))"
  using reap_all_steps [OF assms]
  by (simp add: run_select_def serve_mcp_stdio_def serve_mcp_http_def
      split: option.split run_ending.split sum.split)

lemma proxy_main_live:
  assumes "os_lives ops live" and "spawn_env_ok ops live g" and "owned live ({#}, s)"
  shows "live (sp_os (snd (proxy_main ops g a ending s))) = {}"
  using supervisor_drop_live [OF assms(1) owned_spawn_steps [OF run_select_steps [OF assms(2)] assms(1,3)]]
  by (simp add: proxy_main_def case_prod_unfold)

subsection \<open>Tool calls are steps of the supervisor\<close>


text \<open>\<open>os_reach\<close>: calls to the OS made one after the other, outside the lock.\<close>

definition os_reach ::
    "'os os_ops \<Rightarrow> ('os \<Rightarrow> nat set) \<Rightarrow> nat multiset \<Rightarrow> 'os \<Rightarrow> nat multiset \<Rightarrow> 'os \<Rightarrow> bool" where
  "os_reach ops live X o1 Y o2 \<longleftrightarrow>
     (\<forall>s. sp_os s = o1 \<longrightarrow> spawn_steps ops live (X, s) (Y, s\<lparr>sp_os := o2\<rparr>))"

lemma os_reach_refl [intro]: "os_reach ops live X o1 X o1"
  by (auto simp: os_reach_def intro: eq_refl)

lemma os_reach_step:
  assumes "\<And>s. sp_os s = o1 \<Longrightarrow> spawn_step ops live (X, s) (Y, s\<lparr>sp_os := o2\<rparr>)"
  shows "os_reach ops live X o1 Y o2"
  using assms by (auto simp: os_reach_def)

lemma os_reach_trans:
  "os_reach ops live X o1 Y o2 \<Longrightarrow> os_reach ops live Y o2 Z o3 \<Longrightarrow> os_reach ops live X o1 Z o3"
  unfolding os_reach_def
proof (intro allI impI)
  fix s :: "'a spawner"
  assume 1: "\<forall>s. sp_os s = o1 \<longrightarrow> spawn_steps ops live (X, s) (Y, s\<lparr>sp_os := o2\<rparr>)"
    and 2: "\<forall>s. sp_os s = o2 \<longrightarrow> spawn_steps ops live (Y, s) (Z, s\<lparr>sp_os := o3\<rparr>)" and "sp_os s = o1"
  then have "spawn_steps ops live (X, s) (Y, s\<lparr>sp_os := o2\<rparr>)" by blast
  also have "spawn_steps ops live (Y, s\<lparr>sp_os := o2\<rparr>) (Z, s\<lparr>sp_os := o3\<rparr>)"
    using 2 [rule_format, of "s\<lparr>sp_os := o2\<rparr>"] by simp
  finally show "spawn_steps ops live (X, s) (Z, s\<lparr>sp_os := o3\<rparr>)" .
qed

lemma os_reach_bind:
  assumes "os_reach ops live X o1 X (snd r)"
    and "\<And>a. fst r = Inr a \<Longrightarrow> os_reach ops live X (snd r) (Y (fst (k a (snd r)))) (snd (k a (snd r)))"
    and "\<And>e. Y (Inl e) = X"
  shows "os_reach ops live X o1 (Y (fst (res_bind r k))) (snd (res_bind r k))"
proof (cases r)
  case (Pair q o2)
  with assms show ?thesis by (cases q) (auto intro: os_reach_trans)
qed

lemma os_reach_dir: "os_reach ops live X o1 X (snd (os_create_dir_all ops p o1))"
  using ss_create_dir by (intro os_reach_step) auto

lemma os_reach_write: "os_reach ops live X o1 X (snd (os_write ops p d o1))"
  using ss_write by (intro os_reach_step) auto

lemma os_reach_seeds:
  "os_reach ops live X o1 X (snd (seed_sample_book ops cwd o1))"
  "os_reach ops live X o1 X (snd (seed_never_sleep_settings ops cwd o1))"
  unfolding seed_sample_book_def seed_never_sleep_settings_def Let_def
  by (intro os_reach_bind [where Y = "\<lambda>_. X"] os_reach_dir os_reach_write;
      auto intro!: os_reach_bind [where Y = "\<lambda>_. X"] os_reach_write)+

text \<open>The handle \<open>start_effects\<close> returns is in flight until it is recorded.\<close>

definition in_flight :: "nat multiset \<Rightarrow> 'e + nat \<Rightarrow> nat multiset" where
  "in_flight X r = (case r of Inl _ \<Rightarrow> X | Inr c \<Rightarrow> add_mset c X)"

lemma in_flight_simps [simp]: "in_flight X (Inl e) = X" "in_flight X (Inr c) = add_mset c X"
  by (simp_all add: in_flight_def)

lemma os_reach_spawn:
  "os_reach ops live X o1 (in_flight X (fst (os_spawn ops argv cwd o1))) (snd (os_spawn ops argv cwd o1))"
proof (cases "os_spawn ops argv cwd o1")
  case (Pair r o2)
  then show ?thesis by (cases r) (auto intro: os_reach_step ss_spawned ss_not_spawned)
qed

lemma os_reach_effects:
  "os_reach ops live X o1
     (in_flight X (fst (start_effects ops cfg binary i hd' cwd sb as o1)))
     (snd (start_effects ops cfg binary i hd' cwd sb as o1))"
  unfolding start_effects_def Let_def
  by (intro os_reach_bind [where Y = "in_flight X"] os_reach_dir os_reach_spawn)
    (simp_all add: os_reach_seeds os_reach_refl)


lemma start_spawn_steps:
  assumes g: "spawn_env_ok ops live g"
  shows "spawn_steps ops live (X, s) (X, snd (start ops cfg g i hd' cwd connected sb as s))"
proof (cases "is_valid_instance_id i \<and> cfg_binary cfg \<noteq> None \<and> \<not> connected")
  case False
  then show ?thesis by (auto simp: start_def split: option.split)
next
  case True
  then obtain binary where ok: "is_valid_instance_id i" "cfg_binary cfg = Some binary" "\<not> connected"
    by auto
  obtain r s1 where rs: "start_reserve ops i s = (r, s1)" by fastforce
  with ss_reserve [of ops live X s i] have reserved: "spawn_steps ops live (X, s) (X, s1)" by auto
  show ?thesis
  proof (cases r)
    case (Inl e)
    with ok rs reserved show ?thesis by (simp add: start_def)
  next
    case (Inr u)
    obtain eff o2 where eff: "start_effects ops cfg binary i hd' cwd sb as (sp_os s1) = (eff, o2)"
      by fastforce
    let ?s2 = "g (s1\<lparr>sp_os := o2\<rparr>)"
    note reserved
    also have "spawn_steps ops live (X, s1) (in_flight X eff, s1\<lparr>sp_os := o2\<rparr>)"
      using os_reach_effects [of ops live X "sp_os s1" cfg binary i hd' cwd sb as]
      by (simp add: os_reach_def eff)
    also have "spawn_steps ops live (in_flight X eff, s1\<lparr>sp_os := o2\<rparr>) (in_flight X eff, ?s2)"
      by (rule spawn_envD [OF g])
    finally have all: "spawn_steps ops live (X, s) (in_flight X eff, ?s2)" .
    show ?thesis
    proof (cases eff)
      case (Inl message)
      with all have "spawn_steps ops live (X, s) (X, clear_starting i ?s2)"
        using ss_clear by (metis in_flight_simps(1) rtranclp.rtrancl_into_rtrancl)
      with ok rs Inr Inl eff show ?thesis by (simp add: start_def)
    next
      case (Inr child)
      with all have "spawn_steps ops live (X, s) (X, start_record ops i child ?s2)"
        using ss_record by (metis in_flight_simps(2) rtranclp.rtrancl_into_rtrancl)
      with ok rs \<open>r = Inr u\<close> Inr eff show ?thesis by (simp add: start_def Let_def)
    qed
  qed
qed

lemma poll_steps:
  assumes "spawn_env_ok ops live g" and "child_alive ops i (g s) = (alive, s1)"
  shows "spawn_steps ops live (X, s) (X, s1)" and "spawn_steps ops live (X, s) (X, reap ops i s1)"
proof -
  show polled: "spawn_steps ops live (X, s) (X, s1)"
    using rtranclp.rtrancl_into_rtrancl [OF spawn_envD [OF assms(1)] ss_poll [where i = i]] assms(2)
    by (metis snd_conv)
  show "spawn_steps ops live (X, s) (X, reap ops i s1)"
    by (rule rtranclp.rtrancl_into_rtrancl [OF polled ss_reap])
qed

lemma register_loop_spawn_steps:
  assumes "register_loop ops rj hj env senv clk deadline i pid sb as j r s = Some y"
    and "\<And>k. spawn_env_ok ops live (senv k)"
  shows "spawn_steps ops live (X, s) (X, snd (snd y))"
  using assms
proof (induction ops rj hj env senv clk deadline i pid sb as j r s y
    rule: register_loop.raw_induct [rotated, consumes 1])
  case (1 loop ops rj hj env senv clk deadline i pid sb as j r s y)
  let ?m = "env (run_step r) (run_map r)"
  show ?case
  proof (cases "inst_get i ?m")
    case (Some snap)
    with 1(2) show ?thesis by (auto simp: locked_eq)
  next
    case None
    obtain alive s2 where ca: "child_alive ops i (senv j s) = (alive, s2)" by fastforce
    note polled = poll_steps [OF 1(3) ca, where X = X]
    show ?thesis
    proof (cases "\<not> alive \<or> deadline \<le> clk j")
      case True
      with 1(2) None ca polled(2) show ?thesis by (auto simp: locked_eq split: if_splits)
    next
      case False
      with 1(2) None ca have "loop ops rj hj env senv clk deadline i pid sb as (Suc j)
          \<lparr>run_map = ?m, run_step = Suc (run_step r)\<rparr> s2 = Some y"
        by (simp add: locked_eq)
      from "1.IH" [OF this 1(3)] polled(1) show ?thesis by (meson rtranclp_trans)
    qed
  qed
qed

lemma start_instance_spawn_steps:
  assumes run: "start_instance_json ops cfg rj hj env senv clk i hd' cwd sb as r s = Some (res, r', s')"
    and ok: "\<And>k. spawn_env_ok ops live (senv k)"
  shows "spawn_steps ops live (X, s) (X, s')"
proof (cases "is_valid_instance_id i")
  case False
  with run show ?thesis by (auto simp: start_instance_json_def)
next
  case True
  let ?r1 = "\<lparr>run_map = env (run_step r) (run_map r), run_step = Suc (run_step r)\<rparr>"
  obtain started s1 where st: "start ops cfg (senv 0) i hd' cwd (inst_get i (run_map ?r1) \<noteq> None) sb as s =
      (started, s1)" by fastforce
  have s1: "spawn_steps ops live (X, s) (X, s1)" by (metis start_spawn_steps [OF ok] st snd_conv)
  show ?thesis
  proof (cases started)
    case (Inl e)
    with run True st s1 show ?thesis by (auto simp: start_instance_json_def locked_eq)
  next
    case (Inr pid)
    obtain y where y: "register_loop ops rj hj env senv clk (clk 0 + cfg_wait cfg) i pid sb as 1 ?r1 s1 = Some y"
        "s' = snd (snd y)"
      using run True st Inr by (auto simp: start_instance_json_def locked_eq)
    from register_loop_spawn_steps [OF y(1) ok] y(2) s1 show ?thesis by (meson rtranclp_trans)
  qed
qed

lemma reap_if_spawned_steps:
  "spawn_steps ops live (X, s) (X, reap_if_spawned ops sel m s)"
  using ss_reap [of ops live X s] by (auto simp: reap_if_spawned_def split: option.split)

lemma call_tool_spawn_steps:
  assumes "call_tool v call m s = Some (res, m', s')"
    and "\<And>k. spawn_env_ok (svc_os v) live (svc_spawn_env v k)"
  shows "spawn_steps (svc_os v) live (X, s) (X, s')"
proof (cases call)
  case (StartInstance p)
  with assms(1) start_instance_spawn_steps [OF _ assms(2)] show ?thesis
    by (fastforce simp: call_tool_def Let_def)
next
  case (ShutdownInstance sel)
  with assms(1) reap_if_spawned_steps show ?thesis
    by (fastforce simp: call_tool_def Let_def split: prod.splits)
qed (use assms(1) in \<open>auto simp: call_tool_def on_map_def Let_def split: prod.splits\<close>)


subsection \<open>A table of processes\<close>

text \<open>An operating system that only keeps the set of its live processes, at which the witnesses
  evaluate.\<close>

definition table_os :: "(nat \<times> nat set) os_ops" where
  "table_os =
     \<lparr>os_create_dir_all = (\<lambda>p t. (Inr (), t)),
      os_write = (\<lambda>p d t. (Inr (), t)),
      os_spawn = (\<lambda>argv cwd (n, l). (Inr n, (Suc n, insert n l))),
      os_child_pid = (\<lambda>c t. Some (100 + c)),
      os_try_wait = (\<lambda>c (n, l). (if c \<in> l then StillRunning else Exited, (n, l))),
      os_kill_and_wait = (\<lambda>c (n, l). (n, l - {c})),
      os_drop_child = (\<lambda>c (n, l). (n, l - {c})),
      os_temp_dir = ''/tmp'', os_sample_epub = ''PK''\<rparr>"

lemma table_os_lives: "os_lives table_os snd"
  by (auto simp: os_lives_def table_os_def split: prod.split)

lemma spawn_env_ok_idle: "spawn_env_ok ops live (\<lambda>s. s)"
  by (simp add: spawn_env_ok_def)

end
