(* ===== verification/Xtask_Main.thy ===== *)
theory Xtask_Main
  imports Xtask Complex_Main
begin

text \<open>
  The other tasks of \<open>cargo xtask\<close> (\<open>xtask/src/main.rs\<close>): the coverage gate, the generation of
  the C++ stubs, and the dispatch of \<open>main\<close>. On top of \<open>build_ops\<close>, the parameter \<open>tool_ops\<close>
  has the calls these tasks make: the captured output of a command, reading the report, parsing
  it as JSON, and printing. A percentage is a rational number: every finite \<open>f64\<close> is one, JSON
  has no others, and the code only compares it.
\<close>

subsection \<open>Commands and files\<close>

datatype report =
    RNull
  | RBool bool
  | RNumber rat
  | RString string
  | RArray "report list"
  | RObject "(string \<times> report) list"

datatype command_output = OutputError string | Output bool string

record 'os tool_ops =
  to_build :: "'os build_ops"
  to_output :: "command \<Rightarrow> 'os \<Rightarrow> command_output \<times> 'os"
  to_create_dir_all :: "string \<Rightarrow> 'os \<Rightarrow> (string + unit) \<times> 'os"
  to_read_to_string :: "string \<Rightarrow> 'os \<Rightarrow> (string + string) \<times> 'os"
  to_canonicalize :: "string \<Rightarrow> 'os \<Rightarrow> (string + string) \<times> 'os"
  to_parse :: "string \<Rightarrow> string + report"
  to_show_percent :: "rat \<Rightarrow> string"
  to_print :: "string \<Rightarrow> 'os \<Rightarrow> 'os"
  to_buf_bin :: string

definition MIN_LINE_COVERAGE_PERCENT :: rat where
  "MIN_LINE_COVERAGE_PERCENT = 90"

definition GENERATED_PATH_REGEX :: string where
  "GENERATED_PATH_REGEX =
     (let bs = CHR 0x5C; sep = ''[/'' @ [bs, bs] @ '']'' ; sep' = ''(/|'' @ [bs, bs] @ '')''
      in ''src'' @ sep @ ''gen'' @ sep' @ ''|src'' @ sep @ ''gen_connect'' @ sep')"

text \<open>The hint as \<open>trim_end\<close> leaves it.\<close>

definition install_hint :: string where
  "install_hint =
     (let nl = [CHR 0x0A]
      in ''Missing tools to generate a coverage report.'' @ nl @ nl @ ''Install:'' @ nl @ nl @
         ''  cargo install cargo-llvm-cov --locked'' @ nl @ ''  rustup component add llvm-tools-preview'')"

definition cargo :: "string list \<Rightarrow> string option \<Rightarrow> command" where
  "cargo argv dir = \<lparr>cmd_program = ''cargo'', cmd_args = argv, cmd_dir = dir, cmd_env = []\<rparr>"

text \<open>\<open>str::lines\<close>: a line ends at a line feed, and loses a carriage return before it.\<close>

definition str_lines :: "string \<Rightarrow> string list" where
  "str_lines s =
     (let parts = str_split [CHR 0x0A] s;
          strip = (\<lambda>l. if l \<noteq> [] \<and> last l = CHR 0x0D then butlast l else l)
      in map strip (butlast parts) @ (if last parts = [] then [] else [last parts]))"

definition tool_missing :: "'os tool_ops \<Rightarrow> 'os \<Rightarrow> bool \<times> 'os" where
  "tool_missing ops os0 =
     (case bo_status (to_build ops) (cargo [''llvm-cov'', ''--version''] None) os0 of
        (StatusOk, os1) \<Rightarrow>
          (case to_output ops \<lparr>cmd_program = ''rustup'', cmd_args = [''component'', ''list'', ''--installed''],
                               cmd_dir = None, cmd_env = []\<rparr> os1 of
             (Output True listed, os2) \<Rightarrow>
               (\<not> list_ex (\<lambda>line. prefix ''llvm-tools'' line) (str_lines listed), os2)
           | (_, os2) \<Rightarrow> (False, os2))
      | (_, os1) \<Rightarrow> (True, os1))"

definition open_default_browser :: "'os tool_ops \<Rightarrow> string \<Rightarrow> 'os \<Rightarrow> (string + unit) \<times> 'os" where
  "open_default_browser ops path0 os0 =
     res_bind (to_canonicalize ops path0 os0) (\<lambda>path os1.
       let cmd = (if bo_macos (to_build ops) then (''open'', [path])
                  else if bo_windows (to_build ops) then (''cmd'', [''/C'', ''start'', [], path])
                  else (''xdg-open'', [path]))
       in case bo_status (to_build ops) \<lparr>cmd_program = fst cmd, cmd_args = snd cmd, cmd_dir = None,
                                         cmd_env = []\<rparr> os1 of
            (StatusError e, os2) \<Rightarrow> (Inl e, os2)
          | (StatusOk, os2) \<Rightarrow> (Inr (), os2)
          | (StatusFailed status, os2) \<Rightarrow> (Inl (''opener exited with '' @ status), os2))"

subsection \<open>The report\<close>

fun rget :: "string \<Rightarrow> report \<Rightarrow> report option" where
  "rget k (RObject kvs) = map_of kvs k"
| "rget k _ = None"

fun as_array :: "report \<Rightarrow> report list option" where
  "as_array (RArray xs) = Some xs"
| "as_array _ = None"

fun as_f64 :: "report \<Rightarrow> rat option" where
  "as_f64 (RNumber q) = Some q"
| "as_f64 _ = None"

definition line_percent :: "report \<Rightarrow> rat option" where
  "line_percent json =
     Option.bind (rget ''data'' json) (\<lambda>data.
     Option.bind (as_array data) (\<lambda>entries.
     Option.bind (iter_nth 0 entries) (\<lambda>entry.
     Option.bind (rget ''totals'' entry) (\<lambda>totals.
     Option.bind (rget ''lines'' totals) (\<lambda>lines.
     Option.bind (rget ''percent'' lines) as_f64)))))"

definition llvm_cov ::
    "'os tool_ops \<Rightarrow> string \<Rightarrow> bool \<Rightarrow> string list \<Rightarrow> 'os \<Rightarrow> (string + unit) \<times> 'os" where
  "llvm_cov ops ws report extra os0 =
     (let argv = [''llvm-cov''] @
            (if report then [''report''] else [''--workspace'', ''--exclude'', ''xtask'']) @
            [''--ignore-filename-regex'', GENERATED_PATH_REGEX] @ extra
      in case bo_status (to_build ops) (cargo argv (Some ws)) os0 of
           (StatusError e, os1) \<Rightarrow> (Inl (''failed to run cargo llvm-cov: '' @ e), os1)
         | (StatusOk, os1) \<Rightarrow> (Inr (), os1)
         | (StatusFailed status, os1) \<Rightarrow> (Inl (''cargo llvm-cov failed ('' @ status @ '')''), os1))"

definition html_index :: "'os tool_ops \<Rightarrow> string \<Rightarrow> 'os \<Rightarrow> string" where
  "html_index ops out_dir os0 =
     (let nested = path_join out_dir ''html/index.html''
      in if bo_is_file (to_build ops) nested os0 then nested else path_join out_dir ''index.html'')"

subsection \<open>The tasks\<close>

definition run_generate_sim_cpp :: "'os tool_ops \<Rightarrow> string \<Rightarrow> 'os \<Rightarrow> (string + unit) \<times> 'os" where
  "run_generate_sim_cpp ops ws os0 =
     (let protos = path_join ws ''protos'';
          template = path_join protos ''buf.gen.sim-cpp.yaml'';
          out = path_join ws ''crosspoint-simulator/src/sim_grpc/gen''
      in res_bind (to_create_dir_all ops out os0) (\<lambda>_ os1.
           case bo_status (to_build ops)
                  \<lparr>cmd_program = to_buf_bin ops, cmd_args = [''generate'', ''--template'', template],
                   cmd_dir = Some protos, cmd_env = []\<rparr> os1 of
             (StatusError e, os2) \<Rightarrow> (Inl (''failed to spawn buf generate: '' @ e), os2)
           | (StatusFailed status, os2) \<Rightarrow> (Inl (''buf generate failed ('' @ status @ '')''), os2)
           | (StatusOk, os2) \<Rightarrow> (Inr (), to_print ops (''wrote C++ Session stubs under '' @ out) os2)))"

text \<open>The last part of \<open>run_coverage\<close>: the report is shown, the HTML is looked for and opened, and
  the percentage decides.\<close>

definition judge_coverage ::
    "'os tool_ops \<Rightarrow> string \<Rightarrow> bool \<Rightarrow> bool \<Rightarrow> rat \<Rightarrow> 'os \<Rightarrow> (string + unit) \<times> 'os" where
  "judge_coverage ops out_dir write_html opn percent os0 =
     (let shown = to_show_percent ops;
          os1 = to_print ops (''line coverage: '' @ shown percent @ ''% (required: > '' @
                  show_nat 90 @ ''%)'') os0
      in res_bind
           (if write_html then
              (let html = html_index ops out_dir os1
               in if \<not> bo_is_file (to_build ops) html os1
                  then (Inl (''HTML report was not written under '' @ out_dir), os1)
                  else
                    (let os2 = to_print ops (''HTML report: '' @ html) os1
                     in if opn then
                          (case open_default_browser ops html os2 of
                             (Inl e, os3) \<Rightarrow>
                               (Inl (''could not open the default browser ('' @ e @ ''). Open '' @ html @
                                     '' manually.''), os3)
                           | (Inr _, os3) \<Rightarrow> (Inr (), os3))
                        else (Inr (), os2)))
            else (Inr (), os1))
           (\<lambda>_ os4.
              if percent \<le> MIN_LINE_COVERAGE_PERCENT
              then (Inl (''line coverage '' @ shown percent @ ''% is not over '' @ show_nat 90 @ ''%''), os4)
              else (Inr (), os4)))"

definition run_coverage ::
    "'os tool_ops \<Rightarrow> string \<Rightarrow> bool \<Rightarrow> bool \<Rightarrow> 'os \<Rightarrow> (string + unit) \<times> 'os" where
  "run_coverage ops ws html opn os0 =
     (case tool_missing ops os0 of
        (True, os1) \<Rightarrow> (Inl install_hint, os1)
      | (False, os1) \<Rightarrow>
          (let out_dir = path_join ws ''target/llvm-cov'';
               json_path = path_join out_dir ''coverage.json'';
               write_html = (html \<or> opn)
           in res_bind (to_create_dir_all ops out_dir os1) (\<lambda>_ os2.
              res_bind (llvm_cov ops ws False [] os2) (\<lambda>_ os3.
              res_bind (llvm_cov ops ws True [''--json'', ''--output-path'', json_path] os3) (\<lambda>_ os4.
              res_bind (if write_html then llvm_cov ops ws True [''--html'', ''--output-dir'', out_dir] os4
                        else (Inr (), os4)) (\<lambda>_ os5.
              res_bind (to_read_to_string ops json_path os5) (\<lambda>json_text os6.
                case to_parse ops json_text of
                  Inl e \<Rightarrow> (Inl (''coverage json: '' @ e), os6)
                | Inr json \<Rightarrow>
                    (case line_percent json of
                       None \<Rightarrow> (Inl ''coverage json missing data[0].totals.lines.percent'', os6)
                     | Some percent \<Rightarrow> judge_coverage ops out_dir write_html opn percent os6))))))))"

datatype task =
    Coverage bool bool
  | GenerateSimCpp
  | StartCsmProxy start_csm_proxy_args

definition run_task :: "'os tool_ops \<Rightarrow> string \<Rightarrow> task \<Rightarrow> 'os \<Rightarrow> (string + unit) \<times> 'os" where
  "run_task ops ws task os0 =
     (case task of
        Coverage html opn \<Rightarrow> run_coverage ops ws html opn os0
      | GenerateSimCpp \<Rightarrow> run_generate_sim_cpp ops ws os0
      | StartCsmProxy a \<Rightarrow> run_start (to_build ops) ws a os0)"

text \<open>\<open>main\<close>: the exit code, and the message on stderr.\<close>

definition xtask_main :: "'os tool_ops \<Rightarrow> string \<Rightarrow> task \<Rightarrow> 'os \<Rightarrow> (nat \<times> string) \<times> 'os" where
  "xtask_main ops ws task os0 =
     (case run_task ops ws task os0 of
        (Inr _, os1) \<Rightarrow> ((0, []), os1)
      | (Inl err, os1) \<Rightarrow> ((1, err), os1))"

subsection \<open>What a passing gate means\<close>

lemma llvm_cov_ok:
  assumes "llvm_cov ops ws report extra os0 = (Inr (), os1)"
  obtains pre where "bo_status (to_build ops) (cargo (''llvm-cov'' # pre @ extra) (Some ws)) os0 = (StatusOk, os1)"
    and "report \<longleftrightarrow> hd pre = ''report''"
proof -
  let ?pre = "(if report then [''report''] else [''--workspace'', ''--exclude'', ''xtask'']) @
      [''--ignore-filename-regex'', GENERATED_PATH_REGEX]"
  have "bo_status (to_build ops) (cargo (''llvm-cov'' # ?pre @ extra) (Some ws)) os0 = (StatusOk, os1)"
    using assms by (auto simp: llvm_cov_def Let_def split: prod.splits command_status.splits)
  with that [of ?pre] show ?thesis by simp
qed

lemma judge_coverage_ok:
  assumes "judge_coverage ops out_dir write_html opn percent os0 = (Inr (), os1)"
  shows "90 < percent \<and>
    (write_html \<longrightarrow> (\<exists>os2. bo_is_file (to_build ops) (html_index ops out_dir os2) os2))"
  using assms
  by (auto simp: judge_coverage_def MIN_LINE_COVERAGE_PERCENT_def res_bind_Inr_iff Let_def split: if_splits)


text \<open>Tools that always succeed, and a report of 92.5 percent.\<close>

definition good_report :: report where
  "good_report =
     RObject [(''data'', RArray [RObject [(''totals'', RObject [(''lines'', RObject [(''percent'', RNumber (185 / 2))])])]])]"

definition good_tools :: "unit tool_ops" where
  "good_tools =
     \<lparr>to_build = built_ops,
      to_output = (\<lambda>_ u. (Output True ''llvm-tools-x86_64'', u)),
      to_create_dir_all = (\<lambda>_ u. (Inr (), u)), to_read_to_string = (\<lambda>_ u. (Inr ''{}'', u)),
      to_canonicalize = (\<lambda>p u. (Inr p, u)), to_parse = (\<lambda>_. Inr good_report),
      to_show_percent = (\<lambda>_. ''92.50''), to_print = (\<lambda>_ u. u), to_buf_bin = ''buf''\<rparr>"

lemma good_report_percent: "line_percent good_report = Some (185 / 2)"
  by (simp add: line_percent_def good_report_def iter_nth_def)


end
