(* ===== verification/Spec2Isabelle.thy ===== *)
theory Spec2Isabelle
  imports Server_Spec Answer_Types Tool_Tests Lifecycle Xtask_Main
begin

text \<open>
  A verification development for \<open>csm\<close>, the host-side process that lets an MCP client (an agent, an
  editor) drive simulators of an eBook firmware. Paths below are relative to the repository.

  \<^bold>\<open>The program.\<close> A simulator dials the process and opens a \<open>Session\<close>: a stream of messages in
  each direction (\<open>protos\<close>). The session handler (\<open>session.rs\<close>) admits the stream, keeps the instance
  in a shared map (\<open>instances.rs\<close>) and pushes what the simulator sends into that instance's queue. An
  MCP client calls tools (\<open>mcp.rs\<close>): they send requests down a session and wait for the replies,
  drain the queue (\<open>observe\<close>), list instances, and start or kill simulator processes (\<open>spawn.rs\<close>).
  \<open>lib.rs\<close>, \<open>cli.rs\<close> and \<open>main.rs\<close> put the process together; \<open>xtask\<close> builds and starts it. All tasks
  share one map behind locks, so every lock acquisition is a point where the others may have run.

  \<^bold>\<open>Theories\<close>, in the order in which they import each other:
  \<^item> \<open>Csm_Prelude\<close>: hash maps as association lists, \<open>Result\<close> and its \<open>?\<close>, JSON values, string searches,
    and the collections \<open>wf_intros\<close> and \<open>frame_simps\<close> the invariant and frame proofs run on.
  \<^item> \<open>Wire\<close>: the messages of \<open>simulator_control.proto\<close> and \<open>session.proto\<close> as records and datatypes;
    integers keep their width as words, text fields are strings.
  \<^item> \<open>Inbound_Queue\<close>: \<open>InboundQueue\<close> and the functions that decide what it evicts. The locales
    \<open>bounded_buffer\<close> and \<open>protecting_buffer\<close> are its contract (capacity, order, protection),
    interpreted on \<open>iq_push\<close> and \<open>iq_try_recv\<close>.
  \<^item> \<open>Instance_Map\<close>: \<open>InstanceMap\<close> as the record \<open>imap\<close> (the three tables, the two counters, the outbound
    channels and the fate of every oneshot sender) and its methods, with frames and lookups.
  \<^item> \<open>Waiters\<close>: \<open>send_and_wait_for\<close> and the waiter tables. The locale \<open>reply_registry\<close> is what a waiting
    call relies on; \<open>other_step\<close> is what any other task may do meanwhile.
  \<^item> \<open>Registry\<close>: who owns an instance. The locale \<open>token_registry\<close> is the contract of the tokens
    (a replaced session is retired for good); the map refines it by \<open>owner_of\<close>.
  \<^item> \<open>Session\<close>: the handler of \<open>session.rs\<close>, and \<open>sys_step\<close>, the interleaving of sessions, streams and
    tool operations, with its invariant \<open>sys_inv\<close>; a session is a sequence of these steps.
  \<^item> \<open>Server_Spec\<close>: what the server promises (\<open>server_spec\<close>: a directory of numbered sessions with
    mailboxes, and a set of open requests), the locale \<open>simulation\<close>, and its interpretation on
    \<open>map_step\<close>: every step of the process is a step of the specification, read off by \<open>spec_of\<close>.
  \<^item> \<open>Observe\<close>: draining, the until-conditions and the polling loop of \<open>observe\<close>.
  \<^item> \<open>Mcp_Tools\<close>: inject, batches, snapshots, session views, listings and resources.
  \<^item> \<open>Spawn\<close>: the supervisor of child processes and \<open>start_instance\<close>.
  \<^item> \<open>Call_Frame\<close>: the locale \<open>call_frame\<close>, which shows of any relation that contains the operations a
    call uses that the whole call stays in it; interpreted on the steps of the process and on
    \<open>spares j\<close>, which leaves instance \<open>j\<close> alone.
  \<^item> \<open>Proxy\<close>: the command line, the capabilities document, and \<open>call_tool\<close>, the dispatch of the thirteen
    tools; every call is a sequence of the steps of \<open>Session\<close> and leaves other instances alone.
  \<^item> \<open>Answer_Types\<close>: the type of each tool's answer, \<open>reply_shape\<close>, and that every answer has it.
  \<^item> \<open>Lifecycle\<close>: how the process ends, and \<open>spawn_step\<close>, the steps of all tasks on the supervisor.
  \<^item> \<open>Xtask\<close>, \<open>Xtask_Main\<close>: \<open>start-csm-proxy\<close>, the coverage gate and the other tasks.
  \<^item> \<open>Map_Tests\<close>, \<open>Tool_Tests\<close>, \<open>Process_Tests\<close>: the unit tests of \<open>instances.rs\<close>, \<open>mcp.rs\<close>, \<open>spawn.rs\<close>,
    \<open>logging.rs\<close>, \<open>cli.rs\<close> and \<open>start.rs\<close> as boolean definitions over the model, each proved to hold: the
    model does what the code's authors expect of the code.
  \<^item> This theory: the process from startup through any run to its end.

  \<^bold>\<open>How the code is modelled.\<close> A method with \<open>&self\<close> is a function from the state it locks to its result
  and the new state; a \<open>Result\<close> is a sum with the error on the left; every early return is a branch. A
  function that takes several locks runs the other tasks between them: \<open>gap\<close> and \<open>await_rx\<close> of a
  \<open>sched\<close> for the calls that send, \<open>env\<close> for the polling loops (\<open>locked env f\<close> is one acquisition),
  \<open>senv\<close> and \<open>g\<close> for the supervisor. A oneshot channel is a number whose fate is open, sent or dropped.
  The polling loops are \<open>partial_function (option)\<close> with no bound built in: that they return is proved
  (\<open>observe_wait_returns\<close>, \<open>start_instance_settles\<close>), not assumed. \<open>remove_if\<close> is also given lock by lock
  (\<open>remove_if_gap\<close>), since what runs between its halves matters. \<open>insert\<close> (token, then table),
  \<open>push_inbound\<close> (waiters, then queue) and the three waiter operations (two tables) are one step each,
  although others may run between their locks: tokens and correlation ids are unique, and what a
  reply does to its waiter does not depend on the queue.

  \<^bold>\<open>Parameters\<close>, for what is not source of this repository or the standard library, and the named
  hypotheses on them:
  \<^item> the tokio channel behind a session (\<open>try_send_fn\<close>, its receiver) and the scheduler. \<open>sched_ok\<close>: the
    other tasks take \<open>other_step\<close>s under other correlation ids, and a receiver yields what its
    sender did; \<open>sched_steps\<close>, \<open>env_ok\<close>: they take steps of the process; \<open>pauses\<close>: at some point the
    simulator is quiet for 129 acquisitions, enough for a drain because a queue holds at most 128.
  \<^item> the clock. \<open>sleeps\<close>, \<open>poll_clock\<close>: it advances by the length of the sleep between two polls.
  \<^item> the operating system (\<open>os_ops\<close>, \<open>build_ops\<close>, \<open>tool_ops\<close>) over an abstract state. \<open>os_lives\<close>: only
    spawning adds a live child, and killing it or dropping its handle ends it (\<open>kill_on_drop\<close>);
    \<open>spawn_env_ok\<close>: the other tasks take steps of the supervisor.
  \<^item> generated and third-party encoders: the JSON of a message, a register and a heartbeat, the JSON
    printer and parser, base64.
  \<^item> fewer than \<open>2\<^sup>6\<^sup>4 - 1\<close> registrations (\<open>token_room\<close>), and a correlation id not in use when it is drawn,
    since the counters wrap.

  \<^bold>\<open>What is shown.\<close> Queue: bounded, in order, never evicts a reply, evicts the right message. Waiters: a
  reply answers its own request; what happens to a request reaches its caller; no waiter leaks; a
  disconnection fails exactly its own waiters. Sessions: a connected instance is valid and owned by a
  running session, a replaced session is inert, and a session leaves nothing behind. Process: it
  refines the specification, and a token names one session for good. Tools: every call
  is a sequence of steps of the process and keeps its invariants, answers with the type of its tool,
  and leaves the other instances alone; waits and starts end; batches stop
  at the first rejection; an observe reports the queue; resolution never guesses. Processes: starts
  settle, no child escapes the supervisor or outlives the process. Tasks: a plan names files that
  exist, and the coverage gate passes only above its threshold. Some theorems state behaviour that
  looks unintended and is listed with the findings of the manifest: any session can complete any
  waiter, a stale message can reach a replacement session, the end of a session can fail a call on its
  replacement, drained events are lost on a disconnection, \<open>reap\<close> drops a reservation, two ids can
  share a directory, and one unit test cannot fail for the reason it names.

  \<^bold>\<open>Not modelled.\<close> The RPC and MCP frameworks (routers, transports, decoding of parameters, pagination and
  schema descriptions), clap and tracing, and the generated protobuf code are libraries the sources
  only call. Log lines on stderr are left out. Signals are not modelled: the process installs no
  handler, so a process ended by one runs none of the code of \<open>Lifecycle\<close>. \<open>exec_proxy\<close> is its Unix
  branch. Paths are strings, so the branches for paths that are not UTF-8 do not arise. Mutex
  poisoning does not arise, since nothing panics under a lock. Of the test modules, the tests of clap's
  parsing and of the listeners are left out, and the integration tests under \<open>tests\<close>.
\<close>

section \<open>The whole process\<close>

text \<open>\<open>run\<close> (\<open>crates/csm-proxy/src/lib.rs\<close>) makes an empty instance map, applies the command line's
  default instance, and derives the supervisor's configuration; the two servers then run until
  one of them ends.\<close>

definition startup :: "args \<Rightarrow> (nat \<Rightarrow> 'ch) \<Rightarrow> 'ch imap \<times> spawn_config" where
  "startup a chans = (apply_instance_hints a (imap_new chans), from_args a)"

text \<open>What the running process goes through: steps of the sessions, and tool calls. The process has
  accepted fewer than \<open>2\<^sup>6\<^sup>4 - 1\<close> registrations (\<open>token_room\<close> in \<open>sys_step\<close>).\<close>

inductive proxy_reachable ::
    "('ch, 'os) services \<Rightarrow> (nat \<Rightarrow> 'ch) \<Rightarrow> ('ch \<Rightarrow> (server_to_sim \<times> 'ch) option) \<Rightarrow> args \<Rightarrow>
     (nat \<Rightarrow> 'ch) \<Rightarrow> 'os \<Rightarrow> 'ch imap \<Rightarrow> 'os spawner \<Rightarrow> bool"
  for v mk rv a chans os0 where
  pr_start: "proxy_reachable v mk rv a chans os0 (fst (startup a chans)) (spawner_new os0)"
| pr_session: "proxy_reachable v mk rv a chans os0 m s \<Longrightarrow> map_step (svc_try_send v) mk rv m m' \<Longrightarrow>
     proxy_reachable v mk rv a chans os0 m' s"
| pr_call: "proxy_reachable v mk rv a chans os0 m s \<Longrightarrow> call_tool v call m s = Some (res, m', s') \<Longrightarrow>
     proxy_reachable v mk rv a chans os0 m' s'"

lemma startup_map_ok: "map_ok (fst (startup a chans))"
  by (auto simp: startup_def apply_instance_hints_def map_ok_def caps_wf_def imap_new_def frame_simps
      intro: imap_wf_default imap_wf_new [unfolded imap_new_def])

lemma proxy_reachable_ok:
  assumes "proxy_reachable v mk rv a chans os0 m s"
    and "sched_steps (svc_try_send v) mk rv (svc_sched v)" and "env_ok (svc_try_send v) mk rv (svc_env v)"
  shows "map_ok m"
  using assms
proof (induction rule: proxy_reachable.induct)
  case pr_start
  show ?case by (rule startup_map_ok)
next
  case (pr_session m s m')
  then show ?case using map_steps_ok [OF r_into_rtranclp] by blast
next
  case (pr_call m s call res m' s')
  then show ?case using map_steps_ok [OF call_tool_steps] by blast
qed

text \<open>C1. Whatever the process has been through since it started (sessions opening, sending, being
  replaced and ending; tool calls of every kind, answered, rejected or timed out; interleaved in
  any way), every connected instance has a valid id, the one its \<open>Register\<close> carried, and a queue
  of at most 128 messages; no two instances share an outbound channel; the default instance, if
  set, is a valid id; and every pending reply waiter belongs to a known instance id and an open
  channel.\<close>

theorem process_invariant:
  assumes "proxy_reachable v mk rv a chans os0 m s"
    and "sched_steps (svc_try_send v) mk rv (svc_sched v)" and "env_ok (svc_try_send v) mk rv (svc_env v)"
  shows "(\<forall>i inst. hm_get (im_inner m) i = Some inst \<longrightarrow>
      is_valid_instance_id i \<and> reg_instance_id (inst_register inst) = i \<and>
      length (iq_items (inst_inbound inst)) \<le> 128 \<and>
      (\<forall>j other. hm_get (im_inner m) j = Some other \<and> j \<noteq> i \<longrightarrow>
         inst_outbound_tx other \<noteq> inst_outbound_tx inst)) \<and>
    (\<forall>d. default_instance m = Some d \<longrightarrow> is_valid_instance_id d) \<and>
    (\<forall>c k tx. hm_get (im_waiters m) c = Some (k, tx) \<longrightarrow>
       hm_get (im_waiter_instance m) c \<noteq> None \<and> im_tx_fate m tx = TxOpen)"
proof -
  have ok: "imap_wf m" "caps_wf m" using proxy_reachable_ok [OF assms] by (simp_all add: map_ok_def)
  have "length (iq_items (inst_inbound inst)) \<le> 128" if "hm_get (im_inner m) i = Some inst" for i inst
    using imap_wfD(3) [OF ok(1) that] ok(2) that
    by (auto simp: entry_wf_def iq_wf_def caps_wf_def QUEUE_CAPACITY_def)
  moreover have "hm_get (im_waiter_instance m) c \<noteq> None" if "hm_get (im_waiters m) c = Some (k, tx)" for c k tx
    using imap_wfD(2) [OF ok(1)] that unfolding waiters_wf_def by (metis option.distinct(1))
  ultimately show ?thesis using ok(1)
    by (auto simp: imap_wf_def entry_wf_def default_instance_def waiters_wf_def)
qed

definition plain_args :: args where
  "plain_args =
     \<lparr>arg_listen = ''127.0.0.1:50051'', arg_mcp_http = None, arg_default_instance = None,
      arg_simulator = None, arg_simulator_arg = [], arg_auto_sleep = False, arg_observe_wait_ms = 8000\<rparr>"

lemma connected_run:
  "proxy_reachable quiet_services (\<lambda>_. []) list_recv plain_args (\<lambda>_. []) [] (sys_map first_session) (spawner_new [])"
proof (rule pr_session [OF pr_start])
  have "fst (startup plain_args (\<lambda>_. [] :: server_to_sim list)) = sys_map (sys_init (\<lambda>_. []))"
    by (simp add: startup_def apply_instance_hints_def plain_args_def set_default_instance_def
        sys_init_def imap_new_def)
  then show "map_step (svc_try_send quiet_services) (\<lambda>_. []) list_recv (fst (startup plain_args (\<lambda>_. [])))
      (sys_map first_session)"
    using first_session_step unfolding map_step_def quiet_services_def services.simps by metis
qed

theorem process_invariant_witness:
  "\<exists>inst. hm_get (im_inner (sys_map first_session)) ''a'' = Some inst \<and>
     length (iq_items (inst_inbound inst)) \<le> 128"
proof -
  have "sched_steps (svc_try_send quiet_services) (\<lambda>_. []) list_recv (svc_sched quiet_services)"
    and "env_ok (svc_try_send quiet_services) (\<lambda>_. []) list_recv (svc_env quiet_services)"
    by (simp_all add: quiet_services_def sched_steps_def quiet_sched_def env_ok_def)
  note inv = process_invariant [OF connected_run this]
  have "\<exists>inst. hm_get (im_inner (sys_map first_session)) ''a'' = Some inst"
    by (simp add: first_session_def session_open_def is_valid_instance_id_def
        INSTANCE_ID_MAX_LEN_def mpsc_channel_def imap_insert_def Let_def)
  with inv show ?thesis by blast
qed

subsection \<open>The process refines the specification\<close>

lemma spec_of_startup: "spec_steps spec_init (spec_of (fst (startup a chans)))"
proof -
  have "fst (startup a chans) = imap_new chans \<or> (\<exists>d. fst (startup a chans) = set_default_instance d (imap_new chans))"
    by (auto simp: startup_def apply_instance_hints_def)
  with sim_default [of "imap_new chans"] show ?thesis by (auto simp: spec_of_new)
qed





subsection \<open>No child is left behind\<close>

lemma proxy_reachable_owned:
  assumes "proxy_reachable v mk rv a chans os0 m s"
    and "os_lives (svc_os v) live" and "\<And>k. spawn_env_ok (svc_os v) live (svc_spawn_env v k)"
    and "live os0 = {}"
  shows "owned live ({#}, s)"
  using assms
proof (induction rule: proxy_reachable.induct)
  case pr_start
  then show ?case by (simp add: owned_def spawner_new_def)
next
  case (pr_call m s call res m' s')
  then show ?case using owned_spawn_steps [OF call_tool_spawn_steps [OF pr_call(2)]] by blast
next
  case (pr_session m s m')
  then show ?case by blast
qed


text \<open>A simulator that dials in right after it was started.\<close>

definition dial_in :: "nat \<Rightarrow> server_to_sim list imap \<Rightarrow> server_to_sim list imap" where
  "dial_in k m =
     (if k = 1
      then snd (session_open (\<lambda>_. []) (Some (Item (envelope 0 0 (Register (sample_register ''a''))))) m)
      else m)"

definition table_services :: "(server_to_sim list, nat \<times> nat set) services" where
  "table_services =
     \<lparr>svc_try_send = list_try_send 128, svc_sched = quiet_sched, svc_env = dial_in,
      svc_spawn_env = (\<lambda>_ s. s), svc_clock = poll_times, svc_os = table_os, svc_config = sim_config,
      svc_message_json = text_enc, svc_register_json = (\<lambda>_. JNull), svc_heartbeat_json = (\<lambda>_. JNull),
      svc_json_text = (\<lambda>_. ''{}''), svc_base64 = (\<lambda>s. s)\<rparr>"

definition start_a :: tool_call where
  "start_a = StartInstance
     \<lparr>stp_instance_id = ''a'', stp_headless = True, stp_cwd = None, stp_sample_book = False,
      stp_auto_sleep = Some True\<rparr>"


end
